theory Spec2Isabelle
  imports Complex_Main "HOL-Library.Disjoint_Sets" "HOL-Library.List_Lexorder"
    "HOL-Library.Char_ord"
begin

section \<open>Exceptions\<close>

text \<open>
  The Python exceptions that the functions of \<^verbatim>\<open>cleaning.py\<close> raise or catch. A function
  that can raise returns \<open>error + 'a\<close>, with \<open>Inl\<close> for the exception.
\<close>

datatype error =
  ValueError | KeyError | IndexError | IOError | TypeError | UnboundLocalError | RegexError

section \<open>The graph library, as far as \<^verbatim>\<open>cliques\<close> uses it\<close>

text \<open>
  A networkx graph keeps its nodes in insertion order and its edges as pairs. Adding an
  edge adds its end points as nodes when they are new.
\<close>

record 'a graph =
  nodes :: "'a list"
  edges :: "('a \<times> 'a) list"

definition DiGraph :: "'a graph" where
  "DiGraph = \<lparr>nodes = [], edges = []\<rparr>"

definition add_node :: "'a \<Rightarrow> 'a graph \<Rightarrow> 'a graph" where
  "add_node v G = (if v \<in> set (nodes G) then G else G\<lparr>nodes := nodes G @ [v]\<rparr>)"

definition add_nodes_from :: "'a list \<Rightarrow> 'a graph \<Rightarrow> 'a graph" where
  "add_nodes_from vs G = fold add_node vs G"

definition add_edge :: "'a \<times> 'a \<Rightarrow> 'a graph \<Rightarrow> 'a graph" where
  "add_edge e G =
     (let G' = add_node (snd e) (add_node (fst e) G)
      in if e \<in> set (edges G') then G' else G'\<lparr>edges := edges G' @ [e]\<rparr>)"

definition add_edges_from :: "('a \<times> 'a) list \<Rightarrow> 'a graph \<Rightarrow> 'a graph" where
  "add_edges_from es G = fold add_edge es G"

text \<open>
  \<^verbatim>\<open>G.to_undirected(reciprocal=True)\<close>: the same nodes, and only the edges that are
  present in both directions.
\<close>

definition to_undirected_reciprocal :: "'a graph \<Rightarrow> 'a graph" where
  "to_undirected_reciprocal G =
     \<lparr>nodes = nodes G,
      edges = filter (\<lambda>e. (snd e, fst e) \<in> set (edges G)) (edges G)\<rparr>"

definition adj :: "'a graph \<Rightarrow> 'a \<Rightarrow> 'a \<Rightarrow> bool" where
  "adj H u v \<longleftrightarrow> (u, v) \<in> set (edges H) \<or> (v, u) \<in> set (edges H)"

text \<open>
  \<^verbatim>\<open>find_cliques\<close> is library code: it yields every maximal clique of an undirected
  graph once, as a list of nodes, ignoring self loops, in an order that depends on the
  iteration order of hash tables. It is a parameter of the model, and the contract below
  is what the library documents about it.
\<close>

definition is_clique :: "'a graph \<Rightarrow> 'a set \<Rightarrow> bool" where
  "is_clique H C \<longleftrightarrow> C \<subseteq> set (nodes H) \<and> (\<forall>u\<in>C. \<forall>v\<in>C. u \<noteq> v \<longrightarrow> adj H u v)"

definition maximal_clique :: "'a graph \<Rightarrow> 'a set \<Rightarrow> bool" where
  "maximal_clique H C \<longleftrightarrow>
     C \<noteq> {} \<and> is_clique H C \<and> (\<forall>w\<in>set (nodes H). w \<notin> C \<longrightarrow> \<not> is_clique H (insert w C))"

definition find_cliques_contract :: "'a graph \<Rightarrow> 'a list list \<Rightarrow> bool" where
  "find_cliques_contract H cs \<longleftrightarrow>
     (\<forall>c\<in>set cs. distinct c) \<and> distinct (map set cs) \<and>
     set ` set cs = {C. maximal_clique H C}"

text \<open>
  One enumeration that meets the contract, for every graph: the subsets of the node list
  that are maximal cliques, in the order of \<open>subseqs\<close>.
\<close>

definition find_cliques_enum :: "'a graph \<Rightarrow> 'a list list" where
  "find_cliques_enum H =
     filter (\<lambda>c. maximal_clique H (set c)) (subseqs (remdups (nodes H)))"

section \<open>The Duplicate-Group Resolver: \<^verbatim>\<open>cliques\<close>\<close>

text \<open>
  The column \<^verbatim>\<open>grouped\<close> is a Series over the index of the frame: one pair of index
  label and value per row, \<open>None\<close> for NaN.
\<close>

type_synonym 'a series = "('a \<times> nat option) list"

text \<open>
  \<^verbatim>\<open>grouped.loc[inds] = i\<close>: pandas raises KeyError when a label of the list is not in
  the index, and otherwise overwrites the value of every row whose label is in the list.
\<close>

definition loc_setitem :: "'a list \<Rightarrow> nat \<Rightarrow> 'a series \<Rightarrow> error + 'a series" where
  "loc_setitem inds i s =
     (if set inds \<subseteq> fst ` set s
      then Inr (map (\<lambda>(l, v). if l \<in> set inds then (l, Some i) else (l, v)) s)
      else Inl KeyError)"

text \<open>The loop \<^verbatim>\<open>for i, inds in enumerate(...): grouped.loc[inds] = i\<close>, from index \<open>i\<close> on.\<close>

fun assign_groups :: "nat \<Rightarrow> 'a list list \<Rightarrow> 'a series \<Rightarrow> error + 'a series" where
  "assign_groups i [] s = Inr s"
| "assign_groups i (inds # rest) s =
     (case loc_setitem inds i s of
        Inl e \<Rightarrow> Inl e
      | Inr s' \<Rightarrow> assign_groups (Suc i) rest s')"

definition reciprocal_graph :: "'a list \<Rightarrow> ('a \<times> 'a) list \<Rightarrow> 'a graph" where
  "reciprocal_graph index dataduplicates =
     to_undirected_reciprocal (add_edges_from dataduplicates (add_nodes_from index DiGraph))"

definition cliques ::
  "('a graph \<Rightarrow> 'a list list) \<Rightarrow> 'a list \<Rightarrow> ('a \<times> 'a) list \<Rightarrow> error + 'a series" where
  "cliques find_cliques index dataduplicates =
     (let H = reciprocal_graph index dataduplicates;
          grouped = map (\<lambda>l. (l, None)) index
      in assign_groups 0 (find_cliques H) grouped)"

text \<open>
  The matcher is run on the frame, so the identifiers of its pairs are index labels of
  the frame.
\<close>

definition well_formed_edges :: "'a list \<Rightarrow> ('a \<times> 'a) list \<Rightarrow> bool" where
  "well_formed_edges index ds \<longleftrightarrow> (\<forall>e\<in>set ds. fst e \<in> set index \<and> snd e \<in> set index)"

text \<open>The groups of a Series: the rows that carry the same number.\<close>

definition members :: "'a series \<Rightarrow> nat \<Rightarrow> 'a set" where
  "members s i = set (map fst (filter (\<lambda>r. snd r = Some i) s))"

definition group_numbers :: "'a series \<Rightarrow> nat list" where
  "group_numbers s = concat (map (\<lambda>r. case snd r of None \<Rightarrow> [] | Some i \<Rightarrow> [i]) s)"

definition groups :: "'a series \<Rightarrow> 'a set set" where
  "groups s = members s ` set (group_numbers s)"

text \<open>
  The position of the first and of the last list of an enumeration that contains a
  label.
\<close>

fun first_containing :: "'a list list \<Rightarrow> 'a \<Rightarrow> nat option" where
  "first_containing [] l = None"
| "first_containing (c # cs) l =
     (if l \<in> set c then Some 0 else map_option Suc (first_containing cs l))"

fun last_containing :: "'a list list \<Rightarrow> 'a \<Rightarrow> nat option" where
  "last_containing [] l = None"
| "last_containing (c # cs) l =
     (case last_containing cs l of
        Some j \<Rightarrow> Some (Suc j)
      | None \<Rightarrow> if l \<in> set c then Some 0 else None)"

text \<open>What the loop has done to a Series once it has run over an enumeration.\<close>

definition relabel :: "nat \<Rightarrow> 'a list list \<Rightarrow> 'a series \<Rightarrow> 'a series" where
  "relabel i cs s =
     map (\<lambda>(l, v). (l, case last_containing cs l of None \<Rightarrow> v | Some j \<Rightarrow> Some (i + j))) s"

section \<open>Frames of power plant records\<close>

text \<open>
  A float64 value of a numeric column: a real number, an infinity, or NaN (the null of a
  numeric column). Rounding and the sign of zero are not modelled.
\<close>

datatype pyfloat = NaN | NegInf | Fin real | PosInf

definition fneg :: "pyfloat \<Rightarrow> pyfloat" where
  "fneg a = (case a of NaN \<Rightarrow> NaN | NegInf \<Rightarrow> PosInf | PosInf \<Rightarrow> NegInf | Fin x \<Rightarrow> Fin (- x))"

fun fadd :: "pyfloat \<Rightarrow> pyfloat \<Rightarrow> pyfloat" where
  "fadd NaN _ = NaN"
| "fadd _ NaN = NaN"
| "fadd PosInf NegInf = NaN"
| "fadd NegInf PosInf = NaN"
| "fadd PosInf _ = PosInf"
| "fadd _ PosInf = PosInf"
| "fadd NegInf _ = NegInf"
| "fadd _ NegInf = NegInf"
| "fadd (Fin x) (Fin y) = Fin (x + y)"

text \<open>The sign of a value that is not NaN, and the infinity of a given sign.\<close>

definition fsgn :: "pyfloat \<Rightarrow> int" where
  "fsgn a = (case a of NaN \<Rightarrow> 0 | NegInf \<Rightarrow> - 1 | PosInf \<Rightarrow> 1
             | Fin x \<Rightarrow> if x < 0 then - 1 else if x = 0 then 0 else 1)"

definition finf :: "int \<Rightarrow> pyfloat" where
  "finf s = (if s < 0 then NegInf else if s = 0 then NaN else PosInf)"

fun fmul :: "pyfloat \<Rightarrow> pyfloat \<Rightarrow> pyfloat" where
  "fmul NaN _ = NaN"
| "fmul _ NaN = NaN"
| "fmul (Fin x) (Fin y) = Fin (x * y)"
| "fmul a b = finf (fsgn a * fsgn b)"

text \<open>
  Division of numpy arrays does not raise: a finite value divided by zero is an infinity
  of its sign, and zero divided by zero is NaN.
\<close>

fun fdiv :: "pyfloat \<Rightarrow> pyfloat \<Rightarrow> pyfloat" where
  "fdiv NaN _ = NaN"
| "fdiv _ NaN = NaN"
| "fdiv (Fin x) (Fin y) = (if y = 0 then finf (fsgn (Fin x)) else Fin (x / y))"
| "fdiv (Fin x) _ = Fin 0"
| "fdiv a (Fin y) = (if y < 0 then fneg a else a)"
| "fdiv _ _ = NaN"

definition notna :: "pyfloat \<Rightarrow> bool" where
  "notna a \<longleftrightarrow> a \<noteq> NaN"

text \<open>
  The reductions of a numeric Series skip NaN. The sum of no value is 0; the mean and the
  minimum of no value are NaN.
\<close>

definition series_sum :: "pyfloat list \<Rightarrow> pyfloat" where
  "series_sum xs = foldl fadd (Fin 0) (filter notna xs)"

definition series_mean :: "pyfloat list \<Rightarrow> pyfloat" where
  "series_mean xs =
     (let ys = filter notna xs
      in if ys = [] then NaN else fdiv (foldl fadd (Fin 0) ys) (Fin (real (length ys))))"

fun fmin :: "pyfloat \<Rightarrow> pyfloat \<Rightarrow> pyfloat" where
  "fmin NegInf _ = NegInf"
| "fmin _ NegInf = NegInf"
| "fmin PosInf b = b"
| "fmin a PosInf = a"
| "fmin (Fin x) (Fin y) = Fin (min x y)"
| "fmin NaN b = b"
| "fmin a NaN = a"

definition series_min :: "pyfloat list \<Rightarrow> pyfloat" where
  "series_min xs = (case filter notna xs of [] \<Rightarrow> NaN | y # ys \<Rightarrow> foldl fmin y ys)"

definition fillna :: "pyfloat \<Rightarrow> pyfloat \<Rightarrow> pyfloat" where
  "fillna d a = (if a = NaN then d else a)"

text \<open>\<^verbatim>\<open>Series.replace(0., nan)\<close> on one value.\<close>

definition replace_zero :: "pyfloat \<Rightarrow> pyfloat" where
  "replace_zero a = (if a = Fin 0 then NaN else a)"

text \<open>
  One row of a frame. A text column holds a string or null. The row carries its index
  label. The type of \<^verbatim>\<open>projectID\<close> is a parameter: an identifier or null in a source
  frame, a list of them in an aggregated frame.
\<close>

record 'p row =
  label :: nat
  projectID :: 'p
  Name :: "string option"
  Country :: "string option"
  Fueltype :: "string option"
  Technology :: "string option"
  Set :: "string option"
  File :: "string option"
  Capacity :: pyfloat
  lat :: pyfloat
  lon :: pyfloat
  YearCommissioned :: pyfloat
  Duration :: pyfloat
  grouped :: "nat option"

text \<open>
  A frame: its rows, and which of the columns \<^verbatim>\<open>Duration\<close> and \<^verbatim>\<open>grouped\<close> it has, by their
  names; the other columns are those of every frame of the pipeline. A field of a row
  whose column the frame does not have is not read.
\<close>

record 'p frame =
  rows :: "'p row list"
  columns :: "string list"

section \<open>The Aggregator: \<^verbatim>\<open>prop_for_groups\<close>\<close>

text \<open>
  \<^verbatim>\<open>Series.value_counts\<close>: the distinct values with the number of their occurrences, the
  most frequent first, values of equal count in the order of their first occurrence. With
  \<open>dropna\<close>, which is the default, null is not counted.
\<close>

definition count_values :: "'a list \<Rightarrow> ('a \<times> nat) list" where
  "count_values vs =
     sort_key (\<lambda>p. - int (snd p)) (map (\<lambda>k. (k, count_list vs k)) (rev (remdups (rev vs))))"

definition counted :: "bool \<Rightarrow> 'a option list \<Rightarrow> 'a option list" where
  "counted dropna xs = (if dropna then filter (\<lambda>v. v \<noteq> None) xs else xs)"

definition value_counts :: "bool \<Rightarrow> 'a option list \<Rightarrow> ('a option \<times> nat) list" where
  "value_counts dropna xs = count_values (counted dropna xs)"

text \<open>\<^verbatim>\<open>.index[0]\<close>: the first key, IndexError when there is none.\<close>

definition index0 :: "('a \<times> nat) list \<Rightarrow> error + 'a" where
  "index0 vc = (case vc of [] \<Rightarrow> Inl IndexError | p # _ \<Rightarrow> Inr (fst p))"

text \<open>\<^verbatim>\<open>(x.Duration * x.Capacity / x.Capacity.sum()).sum()\<close>\<close>

definition weighted_Duration :: "'p row list \<Rightarrow> pyfloat" where
  "weighted_Duration x =
     (let total = series_sum (map Capacity x)
      in series_sum (map (\<lambda>r. fdiv (fmul (Duration r) (Capacity r)) total) x))"

text \<open>
  \<^verbatim>\<open>prop_for_groups\<close> is applied to the rows \<open>x\<close> of one group of a frame with columns
  \<open>cols\<close>. \<open>target\<close> is the list that \<^verbatim>\<open>target_columns()\<close> of the configuration returns. The
  result is the row of the group in the aggregated frame; its \<^verbatim>\<open>Duration\<close> is only a
  column when \<open>target\<close> names it.
\<close>

definition prop_for_groups ::
  "string list \<Rightarrow> string list \<Rightarrow> nat \<Rightarrow> 'p row list \<Rightarrow> error + 'p list row" where
  "prop_for_groups target cols key x =
     (case index0 (value_counts True (map Name x)) of Inl e \<Rightarrow> Inl e | Inr name \<Rightarrow>
      case index0 (value_counts False (map Country x)) of Inl e \<Rightarrow> Inl e | Inr country \<Rightarrow>
      case index0 (value_counts False (map Fueltype x)) of Inl e \<Rightarrow> Inl e | Inr fueltype \<Rightarrow>
      case index0 (value_counts False (map Technology x)) of Inl e \<Rightarrow> Inl e | Inr technology \<Rightarrow>
      case index0 (value_counts False (map Set x)) of Inl e \<Rightarrow> Inl e | Inr set' \<Rightarrow>
      case index0 (value_counts False (map File x)) of Inl e \<Rightarrow> Inl e | Inr file \<Rightarrow>
      Inr \<lparr>label = key,
           projectID = map projectID x,
           Name = name,
           Country = country,
           Fueltype = fueltype,
           Technology = technology,
           Set = set',
           File = file,
           Capacity = series_sum (map (fillna (Fin 0) \<circ> Capacity) x),
           lat = series_mean (map lat x),
           lon = series_mean (map lon x),
           YearCommissioned = series_min (map YearCommissioned x),
           Duration = (if ''Duration'' \<in> set target \<and> ''Duration'' \<in> set cols
                       then weighted_Duration x else NaN),
           grouped = None\<rparr>)"

text \<open>
  The aggregation rules in the words of the specification: a most frequent value of a
  column (null is a value like any other), a column in which null has the majority,
  and the sum of a numeric column in which null counts as 0.
\<close>

definition most_frequent :: "'a list \<Rightarrow> 'a \<Rightarrow> bool" where
  "most_frequent xs v \<longleftrightarrow> v \<in> set xs \<and> (\<forall>w. count_list xs w \<le> count_list xs v)"

definition majority_null :: "'a option list \<Rightarrow> bool" where
  "majority_null xs \<longleftrightarrow> length xs < 2 * count_list xs None"

fun sum_null_as_zero :: "pyfloat list \<Rightarrow> pyfloat" where
  "sum_null_as_zero [] = Fin 0"
| "sum_null_as_zero (a # as) = fadd (if a = NaN then Fin 0 else a) (sum_null_as_zero as)"

text \<open>A member of a group with a given capacity and duration, for the examples.\<close>

definition member :: "string option \<Rightarrow> pyfloat \<Rightarrow> pyfloat \<Rightarrow> nat row" where
  "member n c d =
     \<lparr>label = 0, projectID = 0, Name = n, Country = Some ''DE'', Fueltype = Some ''Hydro'',
      Technology = None, Set = Some ''Store'', File = None, Capacity = c, lat = NaN,
      lon = NaN, YearCommissioned = NaN, Duration = d, grouped = Some 0\<rparr>"

section \<open>The Name Normalizer: \<^verbatim>\<open>clean_powerplantname\<close>\<close>

text \<open>
  Strings are lists of bytes; the functions on characters below are those of Python on
  ASCII text.
\<close>

definition is_space :: "char \<Rightarrow> bool" where
  "is_space c \<longleftrightarrow> c \<in> set [CHR '' '', CHR 0x09, CHR 0x0A, CHR 0x0B, CHR 0x0C, CHR 0x0D]"

definition lower :: "char \<Rightarrow> char" where
  "lower c = (let n = of_char c :: nat in if 65 \<le> n \<and> n \<le> 90 then char_of (n + 32) else c)"

definition upper :: "char \<Rightarrow> char" where
  "upper c = (let n = of_char c :: nat in if 97 \<le> n \<and> n \<le> 122 then char_of (n - 32) else c)"

text \<open>
  The first replacement of \<^verbatim>\<open>clean_powerplantname\<close>: each of the characters
  \<^verbatim>\<open>- / , ( ) [ ] +\<close> and each digit becomes a space.
\<close>

definition noise_to_space :: "string \<Rightarrow> string" where
  "noise_to_space s = map (\<lambda>c. if c \<in> set ''-/,()[]+0123456789'' then CHR '' '' else c) s"

text \<open>\<^verbatim>\<open>str.split()\<close>: the maximal runs of characters that are not white space.\<close>

fun tokens :: "string \<Rightarrow> string list" where
  "tokens [] = [[]]"
| "tokens (c # cs) =
     (if is_space c then [] # tokens cs
      else (case tokens cs of [] \<Rightarrow> [[c]] | t # ts \<Rightarrow> (c # t) # ts))"

definition str_split :: "string \<Rightarrow> string list" where
  "str_split s = filter (\<lambda>t. t \<noteq> []) (tokens s)"

text \<open>
  The replacement of \<^verbatim>\<open>\s+\<close> by one space; the flag says that the character before was
  white space.
\<close>

fun collapse_spaces :: "bool \<Rightarrow> string \<Rightarrow> string" where
  "collapse_spaces _ [] = []"
| "collapse_spaces prev (c # cs) =
     (if is_space c
      then (if prev then collapse_spaces True cs else CHR '' '' # collapse_spaces True cs)
      else c # collapse_spaces False cs)"

definition str_strip :: "string \<Rightarrow> string" where
  "str_strip s = dropWhile is_space (rev (dropWhile is_space (rev s)))"

definition str_capitalize :: "string \<Rightarrow> string" where
  "str_capitalize s = (case s of [] \<Rightarrow> [] | c # cs \<Rightarrow> upper c # map lower cs)"

text \<open>
  The pattern that removes a word \<open>x\<close>; \<open>x\<close> is itself read as a regular expression.
\<close>

definition word_pattern :: "string \<Rightarrow> string" where
  "word_pattern x = ''(?i)(^|'' @ [CHR 0x5C] @ ''s)'' @ x @ ''(?='' @ [CHR 0x5C] @ ''s|$)''"

definition filler_words :: "string list" where
  "filler_words =
     [''[a-z]'', ''I'', ''II'', ''III'', ''IV'', ''V'', ''VI'', ''VII'', ''VIII'',
      ''IX'', ''X'', ''XI'', ''Grupo'', ''parque'', ''eolico'', ''gas'',
      ''biomasa'', ''COGENERACION'', ''gt'', ''unnamed'',
      ''tratamiento de purines'', ''planta'', ''de'', ''la'', ''station'',
      ''power'', ''storage'', ''plant'', ''stage'', ''pumped'', ''project'',
      ''dt'', ''gud'', ''hkw'', ''kbr'', ''Kernkraft'', ''Kernkraftwerk'',
      ''kwg'', ''krb'', ''ohu'', ''gkn'', ''Gemeinschaftskernkraftwerk'',
      ''kki'', ''kkp'', ''kle'', ''wkw'', ''rwe'', ''bis'', ''nordsee'', ''ostsee'',
      ''dampfturbinenanlage'', ''ikw'', ''kw'', ''kohlekraftwerk'',
      ''raffineriekraftwerk'']"

text \<open>
  The regular expression engine is library code. \<open>re_sub p r s\<close> stands for the string that
  replacing every match of the pattern \<open>p\<close> in \<open>s\<close> by \<open>r\<close> gives, or for the error of a
  pattern that does not compile. The patterns are applied one after the other.
\<close>

fun replace_all ::
  "(string \<Rightarrow> string \<Rightarrow> string \<Rightarrow> error + string) \<Rightarrow> string list \<Rightarrow> string \<Rightarrow> error + string" where
  "replace_all re_sub [] s = Inr s"
| "replace_all re_sub (p # ps) s =
     (case re_sub p '' '' s of Inl e \<Rightarrow> Inl e | Inr s' \<Rightarrow> replace_all re_sub ps s')"

text \<open>
  The second chain of replacements on one value of the column. The replacements and the
  string methods of a Series leave a null as it is.
\<close>

definition clean_value ::
  "(string \<Rightarrow> string \<Rightarrow> string \<Rightarrow> error + string) \<Rightarrow> string list \<Rightarrow> string option
     \<Rightarrow> error + string option" where
  "clean_value re_sub pattern v =
     (case v of
        None \<Rightarrow> Inr None
      | Some s \<Rightarrow>
          (case replace_all re_sub pattern s of
             Inl e \<Rightarrow> Inl e
           | Inr s' \<Rightarrow> Inr (Some (str_capitalize (str_strip (collapse_spaces False s'))))))"

text \<open>The results of a list of computations, or the first error.\<close>

fun collect :: "(error + 'a) list \<Rightarrow> error + 'a list" where
  "collect [] = Inr []"
| "collect (x # xs) =
     (case x of
        Inl e \<Rightarrow> Inl e
      | Inr a \<Rightarrow> (case collect xs of Inl e \<Rightarrow> Inl e | Inr as \<Rightarrow> Inr (a # as)))"

text \<open>
  \<^verbatim>\<open>sum(name.str.split(), [])\<close> concatenates the token lists of all names. The token list
  of a null name is NaN, and adding NaN to a list raises TypeError.
\<close>

fun sum_lists :: "string list option list \<Rightarrow> error + string list" where
  "sum_lists [] = Inr []"
| "sum_lists (None # _) = Inl TypeError"
| "sum_lists (Some ts # rest) =
     (case sum_lists rest of Inl e \<Rightarrow> Inl e | Inr us \<Rightarrow> Inr (ts @ us))"

text \<open>
  \<^verbatim>\<open>sort_values('Name')\<close> puts the rows with a null Name last; \<^verbatim>\<open>reset_index(drop=True)\<close>
  numbers the rows from 0.
\<close>

definition sort_values_Name :: "'p row list \<Rightarrow> 'p row list" where
  "sort_values_Name rs =
     sort_key (\<lambda>r. the (Name r)) (filter (\<lambda>r. Name r \<noteq> None) rs) @
     filter (\<lambda>r. Name r = None) rs"

definition reset_index :: "'p row list \<Rightarrow> 'p row list" where
  "reset_index rs = map (\<lambda>(i, r). r\<lparr>label := i\<rparr>) (enumerate 0 rs)"

definition clean_powerplantname ::
  "(string \<Rightarrow> string \<Rightarrow> string \<Rightarrow> error + string) \<Rightarrow> 'p frame \<Rightarrow> error + 'p frame" where
  "clean_powerplantname re_sub df =
     (let name = map (map_option noise_to_space \<circ> Name) (rows df)
      in case sum_lists (map (map_option str_split) name) of
           Inl e \<Rightarrow> Inl e
         | Inr words \<Rightarrow>
             let common_words = count_values words;
                 cw = map fst (filter (\<lambda>p. 20 \<le> snd p) common_words);
                 pattern = map word_pattern (cw @ filler_words)
             in case collect (map (clean_value re_sub pattern) name) of
                  Inl e \<Rightarrow> Inl e
                | Inr name' \<Rightarrow>
                    Inr (df\<lparr>rows :=
                           reset_index (sort_values_Name
                             (filter (\<lambda>r. Name r \<noteq> Some [])
                                (map (\<lambda>(r, n). r\<lparr>Name := n\<rparr>) (zip (rows df) name'))))\<rparr>))"

section \<open>The Technology Canonicalizer: \<^verbatim>\<open>clean_technology\<close>\<close>

text \<open>
  \<open>canonical_technology\<close> stands for the rewriting of one label (the replacements, the keyword
  rules and the sorting of its parts); the rows without a label keep their null.
\<close>

definition clean_technology :: "(bool \<Rightarrow> string \<Rightarrow> string) \<Rightarrow> bool \<Rightarrow> 'p frame \<Rightarrow> 'p frame" where
  "clean_technology canonical_technology generalize_hydros df =
     (let tech = filter (\<lambda>r. Technology r \<noteq> None) (rows df)
      in if length tech = 0 then df
         else df\<lparr>rows := map (\<lambda>r. r\<lparr>Technology :=
                    map_option (canonical_technology generalize_hydros) (Technology r)\<rparr>) (rows df)\<rparr>)"

section \<open>The pipeline: \<^verbatim>\<open>aggregate_units\<close> and \<^verbatim>\<open>clean_single\<close>\<close>

text \<open>
  What the pipeline does to the outside: it writes messages to the logger and it reads and
  writes the file of the saved groups. The file system has an abstract type.
\<close>

datatype log_entry = Info string | Warning string

record 'w world =
  fs :: 'w
  log :: "log_entry list"

definition logger :: "log_entry \<Rightarrow> 'w world \<Rightarrow> 'w world" where
  "logger m w = w\<lparr>log := log w @ [m]\<rparr>"

text \<open>
  The collaborators of the pipeline that are not part of \<^verbatim>\<open>cleaning.py\<close>:
  \<^item> \<open>duke\<close>, the matcher, gives the pairs of index labels it takes for duplicates;
  \<^item> \<open>find_cliques\<close> enumerates the maximal cliques of a graph;
  \<^item> \<open>read_csv\<close> reads the table of labels and group numbers saved under a path, and
    raises when the file is missing or malformed;
  \<^item> \<open>to_csv\<close> writes a Series under a path: it gives the file system after the call and
    the exception it raised, if any;
  \<^item> \<open>target_columns\<close> and \<open>data_out\<close> come from the configuration: the columns of the
    result, for the plain and the detailed variant, and the path of a file of results;
  \<^item> \<open>re_sub\<close> and \<open>canonical_technology\<close> are described above.
\<close>

record ('p, 'w) env =
  duke :: "'p frame \<Rightarrow> error + (nat \<times> nat) list"
  find_cliques :: "nat graph \<Rightarrow> nat list list"
  read_csv :: "string \<Rightarrow> 'w \<Rightarrow> error + nat series"
  to_csv :: "nat series \<Rightarrow> string \<Rightarrow> 'w \<Rightarrow> error option \<times> 'w"
  target_columns :: "bool \<Rightarrow> string list"
  data_out :: "string \<Rightarrow> string"
  re_sub :: "string \<Rightarrow> string \<Rightarrow> string \<Rightarrow> error + string"
  canonical_technology :: "bool \<Rightarrow> string \<Rightarrow> string"

text \<open>\<^verbatim>\<open>'{}'.format(dataset_name)\<close>, and a name between quotes as the messages show it.\<close>

definition format_name :: "string option \<Rightarrow> string" where
  "format_name n = (case n of None \<Rightarrow> ''None'' | Some s \<Rightarrow> s)"

definition quoted :: "string \<Rightarrow> string" where
  "quoted s = [CHR 0x27] @ s @ [CHR 0x27]"

text \<open>
  \<^verbatim>\<open>.reindex(index=df.index)\<close> looks every label of the frame up in the table, with NaN for
  a label the table does not have; pandas refuses a table with a repeated label.
\<close>

definition reindex :: "nat series \<Rightarrow> nat list \<Rightarrow> error + nat option list" where
  "reindex table index =
     (if distinct (map fst table)
      then Inr (map (\<lambda>l. case map_of table l of None \<Rightarrow> None | Some v \<Rightarrow> v) index)
      else Inl ValueError)"

text \<open>\<^verbatim>\<open>df.assign(grouped=...)\<close> with one value per row, and \<^verbatim>\<open>df.drop('grouped', axis=1)\<close>.\<close>

definition assign_grouped :: "nat option list \<Rightarrow> 'p frame \<Rightarrow> 'p frame" where
  "assign_grouped vs df =
     \<lparr>rows = map (\<lambda>(r, v). r\<lparr>grouped := v\<rparr>) (zip (rows df) vs),
      columns = (if ''grouped'' \<in> set (columns df) then columns df
                 else columns df @ [''grouped''])\<rparr>"

definition drop_grouped :: "'p frame \<Rightarrow> 'p frame" where
  "drop_grouped df = df\<lparr>columns := filter (\<lambda>c. c \<noteq> ''grouped'') (columns df)\<rparr>"

text \<open>
  The first part of \<^verbatim>\<open>aggregate_units\<close>: with \<^verbatim>\<open>use_saved_aggregation\<close> the saved groups are
  read and become the column \<^verbatim>\<open>grouped\<close>; ValueError and IOError are caught, logged, and
  an existing column \<^verbatim>\<open>grouped\<close> is dropped; any other exception leaves the function.
\<close>

definition load_saved_groups ::
  "('p, 'w) env \<Rightarrow> string \<Rightarrow> string option \<Rightarrow> bool \<Rightarrow> 'p frame \<Rightarrow> 'w world
     \<Rightarrow> (error + 'p frame) \<times> 'w world" where
  "load_saved_groups e path_name dataset_name use_saved_aggregation df w =
     (if use_saved_aggregation
      then
        let w1 = logger (Info (''Reading saved aggregation groups for dataset '' @
                               quoted (format_name dataset_name) @ ''.'')) w;
            loaded = (case read_csv e path_name (fs w1) of
                        Inl x \<Rightarrow> Inl x
                      | Inr table \<Rightarrow> reindex table (map label (rows df)))
        in case loaded of
             Inr saved \<Rightarrow> (Inr (assign_grouped saved df), w1)
           | Inl x \<Rightarrow>
               if x = ValueError \<or> x = IOError
               then (Inr (if ''grouped'' \<in> set (columns df) then drop_grouped df else df),
                     logger (Warning (''Non-existing saved links for dataset '' @
                                      quoted (format_name dataset_name) @
                                      '', continuing by aggregating again'')) w1)
               else (Inl x, w1)
      else (Inr df, w))"

text \<open>
  The second part: without a column \<^verbatim>\<open>grouped\<close> the matcher and \<^verbatim>\<open>cliques\<close> are run, and the
  new column is written to the file. Of the exceptions of the write only IndexError is
  caught.
\<close>

definition resolve_groups ::
  "('p, 'w) env \<Rightarrow> string \<Rightarrow> 'p frame \<Rightarrow> 'w world \<Rightarrow> (error + 'p frame) \<times> 'w world" where
  "resolve_groups e path_name df w =
     (if ''grouped'' \<notin> set (columns df)
      then
        (case duke e df of
           Inl x \<Rightarrow> (Inl x, w)
         | Inr duplicates \<Rightarrow>
             (case cliques (find_cliques e) (map label (rows df)) duplicates of
                Inl x \<Rightarrow> (Inl x, w)
              | Inr g \<Rightarrow>
                  let df' = assign_grouped (map snd g) df;
                      (raised, fs') = to_csv e g path_name (fs w);
                      w' = w\<lparr>fs := fs'\<rparr>
                  in (case raised of
                        None \<Rightarrow> (Inr df', w')
                      | Some x \<Rightarrow> if x = IndexError then (Inr df', w') else (Inl x, w'))))
      else (Inr df, w))"

text \<open>
  \<^verbatim>\<open>df.groupby('grouped')\<close>: one group per number, in ascending order, each with its rows in
  the order of the frame; the rows without a number are in no group.
\<close>

definition group_keys :: "'p row list \<Rightarrow> nat list" where
  "group_keys rs =
     sort (remdups (concat (map (\<lambda>r. case grouped r of None \<Rightarrow> [] | Some k \<Rightarrow> [k]) rs)))"

definition groupby_grouped :: "'p row list \<Rightarrow> (nat \<times> 'p row list) list" where
  "groupby_grouped rs = map (\<lambda>k. (k, filter (\<lambda>r. grouped r = Some k) rs)) (group_keys rs)"

text \<open>
  The columns that every frame of the pipeline has, and \<^verbatim>\<open>df.loc[:, cols]\<close>, which raises
  KeyError for a name that is not a column. \<open>columns\<close> lists which of the other columns a
  frame has.
\<close>

definition mandatory_columns :: "string list" where
  "mandatory_columns =
     [''Name'', ''Country'', ''Fueltype'', ''Technology'', ''Set'', ''File'', ''Capacity'',
      ''lat'', ''lon'', ''YearCommissioned'', ''projectID'']"

definition select_columns :: "string list \<Rightarrow> 'p frame \<Rightarrow> error + 'p frame" where
  "select_columns cols df =
     (if set cols \<subseteq> set mandatory_columns \<union> set (columns df)
      then Inr (df\<lparr>columns := filter (\<lambda>c. c \<in> set (columns df)) cols\<rparr>)
      else Inl KeyError)"

text \<open>
  The third part: the groups are aggregated, a Duration of 0 becomes null, the names
  are cleaned again, and the columns of the result are selected. The exception of a group
  leaves the function. A frame without a group gives a frame without rows.
\<close>

definition aggregate_grouped ::
  "('p, 'w) env \<Rightarrow> bool \<Rightarrow> 'p frame \<Rightarrow> error + 'p list frame" where
  "aggregate_grouped e detailed_columns df =
     (case collect (map (\<lambda>(k, x). prop_for_groups (target_columns e False) (columns df) k x)
                      (groupby_grouped (rows df))) of
        Inl x \<Rightarrow> Inl x
      | Inr rs \<Rightarrow>
          let has_Duration = ''Duration'' \<in> set (target_columns e False);
              rs' = (if has_Duration
                     then map (\<lambda>r. r\<lparr>Duration := replace_zero (Duration r)\<rparr>) rs else rs);
              agg = \<lparr>rows = reset_index rs',
                     columns = (if has_Duration then [''Duration''] else [])\<rparr>
          in (case clean_powerplantname (re_sub e) agg of
                Inl x \<Rightarrow> Inl x
              | Inr cleaned \<Rightarrow> select_columns (target_columns e detailed_columns) cleaned))"

definition aggregate_units ::
  "('p, 'w) env \<Rightarrow> 'p frame \<Rightarrow> bool \<Rightarrow> string option \<Rightarrow> bool \<Rightarrow> bool \<Rightarrow> 'w world
     \<Rightarrow> (error + 'p list frame \<times> ('p \<times> nat option) list option) \<times> 'w world" where
  "aggregate_units e df use_saved_aggregation dataset_name detailed_columns
       return_aggregation_groups w =
     (let path_name = data_out e (''aggregation_groups_'' @ format_name dataset_name @ ''.csv'')
      in case load_saved_groups e path_name dataset_name use_saved_aggregation df w of
           (Inl x, w1) \<Rightarrow> (Inl x, w1)
         | (Inr df1, w1) \<Rightarrow>
             (case resolve_groups e path_name df1 w1 of
                (Inl x, w2) \<Rightarrow> (Inl x, w2)
              | (Inr df2, w2) \<Rightarrow>
                  let grouped' = map (\<lambda>r. (projectID r, grouped r)) (rows df2)
                  in (case aggregate_grouped e detailed_columns df2 of
                        Inl x \<Rightarrow> (Inl x, w2)
                      | Inr res \<Rightarrow>
                          (Inr (res, if return_aggregation_groups then Some grouped' else None),
                           w2))))"

text \<open>A row with another value, of another type, for \<^verbatim>\<open>projectID\<close>.\<close>

definition map_projectID :: "('p \<Rightarrow> 'q) \<Rightarrow> 'p row \<Rightarrow> 'q row" where
  "map_projectID f r =
     \<lparr>label = label r, projectID = f (projectID r), Name = Name r, Country = Country r,
      Fueltype = Fueltype r, Technology = Technology r, Set = Set r, File = File r,
      Capacity = Capacity r, lat = lat r, lon = lon r,
      YearCommissioned = YearCommissioned r, Duration = Duration r, grouped = grouped r\<rparr>"

definition map_frame :: "('p \<Rightarrow> 'q) \<Rightarrow> 'p frame \<Rightarrow> 'q frame" where
  "map_frame f df = \<lparr>rows = map (map_projectID f) (rows df), columns = columns df\<rparr>"

text \<open>
  \<^verbatim>\<open>clean_single\<close>. In a source frame \<^verbatim>\<open>projectID\<close> is an identifier or null. In the result
  it is a list of them: the members of the group after an aggregation, and otherwise the
  one identifier of the row, or null. Without an aggregation there are no groups to
  return, and asking for them ends in UnboundLocalError.
\<close>

definition clean_single ::
  "('p option, 'w) env \<Rightarrow> 'p option frame \<Rightarrow> string option \<Rightarrow> bool \<Rightarrow> bool \<Rightarrow> bool \<Rightarrow> bool
     \<Rightarrow> 'w world
     \<Rightarrow> (error + 'p option list option frame \<times> ('p option \<times> nat option) list option)
         \<times> 'w world" where
  "clean_single e df dataset_name aggregate_powerplant_units use_saved_aggregation
       detailed_columns return_aggregation_groups w =
     (if aggregate_powerplant_units \<and> use_saved_aggregation \<and> dataset_name = None
      then (Inl ValueError, w)
      else
        let dataset_name' = (case dataset_name of None \<Rightarrow> ''Unnamed dataset'' | Some n \<Rightarrow> n);
            w1 = logger (Info (''Cleaning plant names in '' @ quoted dataset_name' @ ''.'')) w
        in case clean_powerplantname (re_sub e) df of
             Inl x \<Rightarrow> (Inl x, w1)
           | Inr df1 \<Rightarrow>
               if aggregate_powerplant_units
               then
                 let w2 = logger (Info (''Aggregating blocks to entire units in '' @
                                        quoted dataset_name' @ ''.'')) w1
                 in (case aggregate_units e df1 use_saved_aggregation (Some dataset_name')
                            detailed_columns return_aggregation_groups w2 of
                       (Inl x, w3) \<Rightarrow> (Inl x, w3)
                     | (Inr (df2, grouped'), w3) \<Rightarrow>
                         (Inr (clean_technology (canonical_technology e) False
                                 (map_frame Some df2), grouped'), w3))
               else
                 let df2 = map_frame (map_option (\<lambda>x. [Some x])) df1;
                     df3 = clean_technology (canonical_technology e) False df2
                 in if return_aggregation_groups then (Inl UnboundLocalError, w1)
                    else (Inr (df3, None), w1))"

text \<open>
  A frame of two units and collaborators for the examples: the matcher finds no
  duplicates, no groups are saved, and the write raises what is given.
\<close>

definition example_frame :: "nat frame" where
  "example_frame =
     \<lparr>rows = [member (Some ''Alpha'') (Fin 100) NaN,
              (member (Some ''Beta'') (Fin 50) NaN)\<lparr>label := 1\<rparr>],
      columns = []\<rparr>"

definition example_env :: "error option \<Rightarrow> ('p, unit) env" where
  "example_env raised =
     \<lparr>duke = (\<lambda>df. Inr []),
      find_cliques = find_cliques_enum,
      read_csv = (\<lambda>p f. Inl IOError),
      to_csv = (\<lambda>g p f. (raised, f)),
      target_columns = (\<lambda>d. mandatory_columns),
      data_out = (\<lambda>n. n),
      re_sub = (\<lambda>p r s. Inr s),
      canonical_technology = (\<lambda>g s. s)\<rparr>"

section \<open>The Attribute Classifier, with the columns in a store\<close>

text \<open>
  The classifiers store_write into Series in place, and a Series taken from a frame shares the
  values of the column of the frame. So here the values of a column live in a store, under
  an address, and a frame maps the names of its columns to addresses. The columns are
  text columns (dtype object): a value is a string or null. The rows are taken by
  position, as the labels of a frame are distinct.
\<close>

type_synonym addr = nat

type_synonym column = "string option list"

record store =
  mem :: "addr \<Rightarrow> column option"
  fresh :: addr

record dframe =
  row_labels :: "nat list"
  col_addr :: "(string \<times> addr) list"

definition store_read :: "store \<Rightarrow> addr \<Rightarrow> column" where
  "store_read s a = (case mem s a of None \<Rightarrow> [] | Some c \<Rightarrow> c)"

definition store_write :: "addr \<Rightarrow> column \<Rightarrow> store \<Rightarrow> store" where
  "store_write a c s = s\<lparr>mem := (mem s)(a \<mapsto> c)\<rparr>"

definition alloc :: "column \<Rightarrow> store \<Rightarrow> addr \<times> store" where
  "alloc c s = (fresh s, s\<lparr>mem := (mem s)(fresh s \<mapsto> c), fresh := Suc (fresh s)\<rparr>)"

text \<open>\<^verbatim>\<open>df[c]\<close>: the Series of the column, which is a view of its values.\<close>

definition getitem :: "dframe \<Rightarrow> string \<Rightarrow> error + addr" where
  "getitem df c = (case map_of (col_addr df) c of None \<Rightarrow> Inl KeyError | Some a \<Rightarrow> Inr a)"

text \<open>
  \<^verbatim>\<open>df.assign(c=values)\<close>: a deep copy of the frame, in which the column \<open>c\<close> is then set to
  the values.
\<close>

fun copy_columns :: "(string \<times> addr) list \<Rightarrow> store \<Rightarrow> (string \<times> addr) list \<times> store" where
  "copy_columns [] s = ([], s)"
| "copy_columns ((c, a) # rest) s =
     (let (a', s') = alloc (store_read s a) s;
          (rest', s'') = copy_columns rest s'
      in ((c, a') # rest', s''))"

definition assign :: "string \<Rightarrow> column \<Rightarrow> dframe \<Rightarrow> store \<Rightarrow> dframe \<times> store" where
  "assign c values df s =
     (let (cs, s') = copy_columns (col_addr df) s
      in case map_of cs c of
           Some a \<Rightarrow> (df\<lparr>col_addr := cs\<rparr>, store_write a values s')
         | None \<Rightarrow> (let (a, s'') = alloc values s' in (df\<lparr>col_addr := cs @ [(c, a)]\<rparr>, s'')))"

text \<open>
  \<^verbatim>\<open>str.contains\<close> for a pattern that is an alternative of plain words, without regard to
  case: one of the words occurs in the string.
\<close>

fun starts_with :: "string \<Rightarrow> string \<Rightarrow> bool" where
  "starts_with [] s = True"
| "starts_with (p # ps) [] = False"
| "starts_with (p # ps) (c # cs) = (p = c \<and> starts_with ps cs)"

fun occurs_in :: "string \<Rightarrow> string \<Rightarrow> bool" where
  "occurs_in p [] = (p = [])"
| "occurs_in p (c # cs) = (starts_with p (c # cs) \<or> occurs_in p cs)"

definition str_contains :: "string list \<Rightarrow> string \<Rightarrow> bool" where
  "str_contains words s = (\<exists>p\<in>set words. occurs_in (map lower p) (map lower s))"

text \<open>
  \<^verbatim>\<open>df[i].dropna().str.contains(...)\<close>, reindexed to all rows with False for the rows it does
  not have, and \<^verbatim>\<open>series.loc[mask] = v\<close> on the values of a Series.
\<close>

definition contains_mask :: "string list \<Rightarrow> column \<Rightarrow> bool list" where
  "contains_mask words c = map (\<lambda>v. case v of None \<Rightarrow> False | Some s \<Rightarrow> str_contains words s) c"

definition loc_set :: "bool list \<Rightarrow> string \<Rightarrow> column \<Rightarrow> column" where
  "loc_set sel v c = map (\<lambda>(m, x). if m then Some v else x) (zip sel c)"

text \<open>
  The loop of a classifier over the columns to search: the rows of the Series at \<open>target\<close> in
  which the column contains one of the words get the value \<open>v\<close>, in place. A column the
  frame does not have raises KeyError, after the writes of the columns before it.
\<close>

fun scan_columns ::
  "string list \<Rightarrow> string \<Rightarrow> string list \<Rightarrow> dframe \<Rightarrow> addr \<Rightarrow> store \<Rightarrow> error option \<times> store" where
  "scan_columns words v [] df target s = (None, s)"
| "scan_columns words v (i # rest) df target s =
     (case getitem df i of
        Inl e \<Rightarrow> (Some e, s)
      | Inr a \<Rightarrow>
          scan_columns words v rest df target
            (store_write target (loc_set (contains_mask words (store_read s a)) v (store_read s target)) s))"

text \<open>
  \<^verbatim>\<open>gather_fueltype_info\<close>. \<^verbatim>\<open>pd.Series(df['Fueltype'])\<close> makes a Series on the values of the
  column of the frame, without a copy: \<open>fueltype\<close> is the address of that column.
\<close>

definition gather_fueltype_info :: "string list \<Rightarrow> dframe \<Rightarrow> store \<Rightarrow> (error + dframe) \<times> store" where
  "gather_fueltype_info search_col df s =
     (case getitem df ''Fueltype'' of
        Inl e \<Rightarrow> (Inl e, s)
      | Inr fueltype \<Rightarrow>
          (case scan_columns [''lignite'', ''brown''] ''Lignite'' search_col df fueltype s of
             (Some e, s1) \<Rightarrow> (Inl e, s1)
           | (None, s1) \<Rightarrow>
               let s2 = store_write fueltype
                          (map (\<lambda>v. if v = Some ''Coal'' then Some ''Hard Coal'' else v)
                             (store_read s1 fueltype)) s1;
                   (df', s3) = assign ''Fueltype'' (store_read s2 fueltype) df s2
               in (Inr df', s3)))"

text \<open>
  \<^verbatim>\<open>gather_set_info\<close>. \<open>Set\<close> is a copy of the column of the frame, or a new Series of nulls.
\<close>

definition gather_set_info :: "string list \<Rightarrow> dframe \<Rightarrow> store \<Rightarrow> (error + dframe) \<times> store" where
  "gather_set_info search_col df s =
     (let (set', s0) = (case map_of (col_addr df) ''Set'' of
                          Some a \<Rightarrow> alloc (store_read s a) s
                        | None \<Rightarrow> alloc (replicate (length (row_labels df)) None) s)
      in case scan_columns [''heizkraftwerk'', ''hkw'', ''chp'', ''bhkw'', ''cogeneration'',
                            ''power and heat'', ''heat and power''] ''CHP'' search_col df set' s0 of
           (Some e, s1) \<Rightarrow> (Inl e, s1)
         | (None, s1) \<Rightarrow>
             (case scan_columns [''battery'', ''storage''] ''Store'' search_col df set' s1 of
                (Some e, s2) \<Rightarrow> (Inl e, s2)
              | (None, s2) \<Rightarrow>
                  let (df', s3) = assign ''Set'' (store_read s2 set') df s2
                  in (case getitem df' ''Set'' of
                        Inl e \<Rightarrow> (Inl e, s3)
                      | Inr a \<Rightarrow>
                          (Inr df',
                           store_write a (map (\<lambda>v. case v of None \<Rightarrow> Some ''PP'' | Some x \<Rightarrow> Some x)
                                      (store_read s3 a)) s3))))"

text \<open>
  \<^verbatim>\<open>gather_technology_info\<close>. \<open>findall\<close> gives the matches of the pattern of the technologies
  of the configuration in a string. \<open>technology\<close> comes from \<^verbatim>\<open>dropna\<close>, which makes a new
  Series; it is written here as the list of its values, null for a row it does not have.
\<close>

definition join_matches :: "string list \<Rightarrow> string" where
  "join_matches ms = (case ms of [] \<Rightarrow> [] | m # rest \<Rightarrow> foldl (\<lambda>acc x. acc @ '', '' @ x) m rest)"

definition found_in :: "(string \<Rightarrow> string list) \<Rightarrow> column \<Rightarrow> column" where
  "found_in findall c =
     map (\<lambda>v. case v of
                 None \<Rightarrow> None
               | Some s \<Rightarrow> (if findall s = [] then None else Some (join_matches (findall s)))) c"

definition add_found :: "column \<Rightarrow> column \<Rightarrow> column" where
  "add_found technology found =
     map (\<lambda>(t, f). case f of
                      None \<Rightarrow> t
                    | Some y \<Rightarrow> (case t of None \<Rightarrow> Some y | Some x \<Rightarrow> Some (x @ '', '' @ y)))
       (zip technology found)"

fun scan_technology ::
  "(string \<Rightarrow> string list) \<Rightarrow> string list \<Rightarrow> dframe \<Rightarrow> store \<Rightarrow> column \<Rightarrow> error + column" where
  "scan_technology findall [] df s technology = Inr technology"
| "scan_technology findall (i # rest) df s technology =
     (case getitem df i of
        Inl e \<Rightarrow> Inl e
      | Inr a \<Rightarrow>
          scan_technology findall rest df s (add_found technology (found_in findall (store_read s a))))"

definition gather_technology_info ::
  "(string \<Rightarrow> string list) \<Rightarrow> string list \<Rightarrow> dframe \<Rightarrow> store \<Rightarrow> (error + dframe) \<times> store" where
  "gather_technology_info findall search_col df s =
     (let technology = (case map_of (col_addr df) ''Technology'' of
                          Some a \<Rightarrow> store_read s a
                        | None \<Rightarrow> replicate (length (row_labels df)) None)
      in case scan_technology findall search_col df s technology of
           Inl e \<Rightarrow> (Inl e, s)
         | Inr technology' \<Rightarrow>
             (let (df', s') = assign ''Technology'' technology' df s in (Inr df', s')))"

text \<open>
  A store with the three text columns of a frame of two units, for the examples: the
  names at address 0, the fuel types at 1, the technologies at 2.
\<close>

definition example_store :: store where
  "example_store =
     \<lparr>mem = [0 \<mapsto> [Some ''Brown Hill'', Some ''Alpha CHP''],
             1 \<mapsto> [Some ''Gas'', Some ''Coal''],
             2 \<mapsto> [None, None]],
      fresh = 3\<rparr>"

definition example_dframe :: dframe where
  "example_dframe =
     \<lparr>row_labels = [0, 1], col_addr = [(''Name'', 0), (''Fueltype'', 1), (''Technology'', 2)]\<rparr>"

section \<open>Properties of the graph construction\<close>

lemma nodes_add_node: "set (nodes (add_node v G)) = insert v (set (nodes G))"
  by (auto simp: add_node_def)

lemma edges_add_node: "edges (add_node v G) = edges G"
  by (simp add: add_node_def)

lemma nodes_add_nodes_from: "set (nodes (add_nodes_from vs G)) = set vs \<union> set (nodes G)"
  unfolding add_nodes_from_def
  by (induction vs arbitrary: G) (auto simp: nodes_add_node)

lemma edges_add_nodes_from: "edges (add_nodes_from vs G) = edges G"
  unfolding add_nodes_from_def
  by (induction vs arbitrary: G) (auto simp: edges_add_node)

lemma nodes_add_edge: "set (nodes (add_edge e G)) = {fst e, snd e} \<union> set (nodes G)"
  by (auto simp: add_edge_def Let_def nodes_add_node)

lemma edges_add_edge: "set (edges (add_edge e G)) = insert e (set (edges G))"
  by (auto simp: add_edge_def Let_def edges_add_node)

lemma nodes_add_edges_from:
  "set (nodes (add_edges_from es G)) = fst ` set es \<union> snd ` set es \<union> set (nodes G)"
  unfolding add_edges_from_def
  by (induction es arbitrary: G) (auto simp: nodes_add_edge)

lemma edges_add_edges_from: "set (edges (add_edges_from es G)) = set es \<union> set (edges G)"
  unfolding add_edges_from_def
  by (induction es arbitrary: G) (auto simp: edges_add_edge)

lemma nodes_reciprocal_graph:
  "set (nodes (reciprocal_graph index ds)) = set index \<union> fst ` set ds \<union> snd ` set ds"
  by (auto simp: reciprocal_graph_def to_undirected_reciprocal_def nodes_add_edges_from
      nodes_add_nodes_from DiGraph_def)

lemma adj_reciprocal_graph:
  "adj (reciprocal_graph index ds) u v \<longleftrightarrow> (u, v) \<in> set ds \<and> (v, u) \<in> set ds"
  by (auto simp: adj_def reciprocal_graph_def to_undirected_reciprocal_def edges_add_edges_from
      edges_add_nodes_from DiGraph_def)

lemma is_clique_single: "u \<in> set (nodes H) \<Longrightarrow> is_clique H {u}"
  by (simp add: is_clique_def)

lemma node_in_maximal_clique:
  assumes "u \<in> set (nodes H)"
  shows "\<exists>C. maximal_clique H C \<and> u \<in> C"
proof -
  let ?A = "{C. is_clique H C}"
  have fin: "finite ?A"
    by (rule finite_subset [of _ "Pow (set (nodes H))"]) (auto simp: is_clique_def)
  have "{u} \<in> ?A" using assms by (simp add: is_clique_single)
  from finite_has_maximal2 [OF fin this]
  obtain M where M: "is_clique H M" "{u} \<subseteq> M" "\<forall>B\<in>?A. M \<subseteq> B \<longrightarrow> M = B"
    by auto
  have "maximal_clique H M"
    unfolding maximal_clique_def
  proof (intro conjI ballI impI)
    show "M \<noteq> {}" using M(2) by auto
    show "is_clique H M" by (rule M(1))
  next
    fix w assume "w \<in> set (nodes H)" "w \<notin> M"
    show "\<not> is_clique H (insert w M)"
    proof
      assume "is_clique H (insert w M)"
      with M(3) have "M = insert w M" by blast
      with \<open>w \<notin> M\<close> show False by blast
    qed
  qed
  with M(2) show ?thesis by auto
qed

lemma maximal_clique_subset: "maximal_clique H C \<Longrightarrow> C \<subseteq> set (nodes H)"
  by (simp add: maximal_clique_def is_clique_def)

lemma find_cliques_enum_contract: "find_cliques_contract H (find_cliques_enum H)"
proof -
  let ?ns = "remdups (nodes H)"
  have d: "distinct ?ns" by simp
  have 1: "\<forall>c\<in>set (find_cliques_enum H). distinct c"
    using subseqs_distinctD [OF _ d] by (auto simp: find_cliques_enum_def)
  have 2: "distinct (map set (find_cliques_enum H))"
    unfolding find_cliques_enum_def
    using distinct_set_subseqs [OF d] by (simp add: distinct_map_filter)
  have 3: "set ` set (find_cliques_enum H) = {C. maximal_clique H C}"
  proof (intro equalityI subsetI)
    fix C assume "C \<in> set ` set (find_cliques_enum H)"
    then show "C \<in> {C. maximal_clique H C}" by (auto simp: find_cliques_enum_def)
  next
    fix C assume "C \<in> {C. maximal_clique H C}"
    then have m: "maximal_clique H C" by simp
    then have "C \<in> Pow (set ?ns)" using maximal_clique_subset by auto
    then have "C \<in> set ` set (subseqs ?ns)" by (simp only: subseqs_powset)
    then obtain c where "c \<in> set (subseqs ?ns)" "set c = C" by auto
    with m show "C \<in> set ` set (find_cliques_enum H)"
      by (auto simp: find_cliques_enum_def intro!: image_eqI [of _ _ c])
  qed
  from 1 2 3 show ?thesis by (simp add: find_cliques_contract_def)
qed

section \<open>Properties of the assignment loop\<close>

lemma fst_loc_setitem: "loc_setitem inds i s = Inr s' \<Longrightarrow> map fst s' = map fst s"
  by (auto simp: loc_setitem_def split: if_splits)

lemma assign_groups_closed:
  "\<forall>c\<in>set cs. set c \<subseteq> fst ` set s \<Longrightarrow> assign_groups i cs s = Inr (relabel i cs s)"
proof (induction cs arbitrary: i s)
  case Nil
  show ?case by (simp add: relabel_def case_prod_unfold)
next
  case (Cons c cs)
  let ?s' = "map (\<lambda>(l, v). if l \<in> set c then (l, Some i) else (l, v)) s"
  have 1: "loc_setitem c i s = Inr ?s'" using Cons.prems by (simp add: loc_setitem_def)
  have "fst ` set ?s' = fst ` set s" by force
  with Cons.prems have "\<forall>c\<in>set cs. set c \<subseteq> fst ` set ?s'" by simp
  from Cons.IH [OF this] have 2: "assign_groups (Suc i) cs ?s' = Inr (relabel (Suc i) cs ?s')" .
  have "relabel (Suc i) cs ?s' = relabel i (c # cs) s"
    by (auto simp: relabel_def split: option.splits)
  with 1 2 show ?case by simp
qed

lemma last_containing_None: "last_containing cs l = None \<longleftrightarrow> (\<forall>c\<in>set cs. l \<notin> set c)"
  by (induction cs) (auto split: option.splits)

lemma last_containing_Some:
  "last_containing cs l = Some j \<Longrightarrow>
     j < length cs \<and> l \<in> set (cs ! j) \<and> (\<forall>k. j < k \<and> k < length cs \<longrightarrow> l \<notin> set (cs ! k))"
proof (induction cs arbitrary: j)
  case Nil
  then show ?case by simp
next
  case (Cons c cs)
  show ?case
  proof (cases "last_containing cs l")
    case None
    with Cons.prems have j: "j = 0" "l \<in> set c" by (auto split: if_splits)
    from None have "\<forall>c\<in>set cs. l \<notin> set c" by (simp add: last_containing_None)
    then have "\<forall>k. 0 < k \<and> k < Suc (length cs) \<longrightarrow> l \<notin> set ((c # cs) ! k)"
      by (auto simp: nth_Cons split: nat.splits)
    with j show ?thesis by simp
  next
    case (Some j')
    with Cons.prems have j: "j = Suc j'" by simp
    from Cons.IH [OF Some] have
      "j' < length cs" "l \<in> set (cs ! j')" "\<forall>k. j' < k \<and> k < length cs \<longrightarrow> l \<notin> set (cs ! k)"
      by auto
    then show ?thesis unfolding j by (auto simp: nth_Cons split: nat.splits)
  qed
qed

lemma first_containing_Some:
  "first_containing cs l = Some j \<Longrightarrow>
     j < length cs \<and> l \<in> set (cs ! j) \<and> (\<forall>k<j. l \<notin> set (cs ! k))"
proof (induction cs arbitrary: j)
  case Nil
  then show ?case by simp
next
  case (Cons c cs)
  show ?case
  proof (cases "l \<in> set c")
    case True
    with Cons.prems show ?thesis by simp
  next
    case False
    with Cons.prems obtain j' where j: "first_containing cs l = Some j'" "j = Suc j'" by auto
    from Cons.IH [OF j(1)] False show ?thesis unfolding j(2)
      by (auto simp: nth_Cons split: nat.splits)
  qed
qed

section \<open>Properties of \<^verbatim>\<open>cliques\<close>\<close>

lemma contract_clique:
  assumes "find_cliques_contract H cs" "c \<in> set cs"
  shows "maximal_clique H (set c)"
proof -
  from assms(2) have "set c \<in> set ` set cs" by simp
  also from assms(1) have "set ` set cs = {C. maximal_clique H C}"
    by (simp add: find_cliques_contract_def)
  finally show ?thesis by simp
qed

lemma contract_cover:
  assumes "find_cliques_contract H cs" "u \<in> set (nodes H)"
  shows "\<exists>c\<in>set cs. u \<in> set c"
proof -
  from node_in_maximal_clique [OF assms(2)] obtain C where C: "maximal_clique H C" "u \<in> C"
    by auto
  from C(1) assms(1) have "C \<in> set ` set cs" by (simp add: find_cliques_contract_def)
  with C(2) show ?thesis by auto
qed

lemma relabel_fresh:
  "relabel 0 cs (map (\<lambda>l. (l, None)) index) = map (\<lambda>l. (l, last_containing cs l)) index"
  by (simp add: relabel_def split: option.splits)

lemma cliques_closed:
  assumes c: "find_cliques_contract (reciprocal_graph index ds) (fc (reciprocal_graph index ds))"
    and w: "well_formed_edges index ds"
  shows "cliques fc index ds =
           Inr (map (\<lambda>l. (l, last_containing (fc (reciprocal_graph index ds)) l)) index)"
proof -
  let ?H = "reciprocal_graph index ds"
  let ?cs = "fc ?H"
  have n: "set (nodes ?H) = set index"
    using w by (auto simp: nodes_reciprocal_graph well_formed_edges_def)
  have "\<forall>c\<in>set ?cs. set c \<subseteq> fst ` set (map (\<lambda>l. (l, None :: nat option)) index)"
  proof
    fix c assume "c \<in> set ?cs"
    from maximal_clique_subset [OF contract_clique [OF c this]] n
    show "set c \<subseteq> fst ` set (map (\<lambda>l. (l, None :: nat option)) index)" by force
  qed
  from assign_groups_closed [OF this, of 0] show ?thesis
    by (simp add: cliques_def Let_def relabel_fresh)
qed

lemma cliques_assigned:
  assumes c: "find_cliques_contract (reciprocal_graph index ds) cs"
    and l: "l \<in> set index"
  shows "\<exists>j. last_containing cs l = Some j"
proof -
  have "l \<in> set (nodes (reciprocal_graph index ds))" using l by (simp add: nodes_reciprocal_graph)
  from contract_cover [OF c this] have "last_containing cs l \<noteq> None"
    by (simp add: last_containing_None)
  then show ?thesis by auto
qed

lemma members_map: "members (map (\<lambda>l. (l, f l)) index) i = {l \<in> set index. f l = Some i}"
  by (force simp: members_def)

lemma group_numbers_map:
  "set (group_numbers (map (\<lambda>l. (l, f l)) index)) = {i. \<exists>l\<in>set index. f l = Some i}"
  by (auto simp: group_numbers_def split: option.splits)

lemma groups_partition:
  assumes "\<forall>l\<in>set index. f l \<noteq> None"
  shows "partition_on (set index) (groups (map (\<lambda>l. (l, f l)) index))"
proof (rule partition_onI)
  let ?g = "map (\<lambda>l. (l, f l)) index"
  show "\<Union> (groups ?g) = set index"
  proof (intro equalityI subsetI)
    fix l assume "l \<in> \<Union> (groups ?g)"
    then show "l \<in> set index" by (auto simp: groups_def members_map)
  next
    fix l assume l: "l \<in> set index"
    with assms obtain i where i: "f l = Some i" by auto
    with l have "i \<in> set (group_numbers ?g)" "l \<in> members ?g i"
      by (auto simp: members_map group_numbers_map)
    then show "l \<in> \<Union> (groups ?g)" unfolding groups_def by auto
  qed
  show "{} \<notin> groups ?g"
  proof
    assume "{} \<in> groups ?g"
    then obtain i where "i \<in> set (group_numbers ?g)" "members ?g i = {}"
      unfolding groups_def by auto
    then show False by (auto simp: members_map group_numbers_map)
  qed
  fix p q assume pq: "p \<in> groups ?g" "q \<in> groups ?g" "p \<noteq> q"
  from pq(1) obtain i where i: "p = {l \<in> set index. f l = Some i}"
    by (auto simp: groups_def members_map)
  from pq(2) obtain j where j: "q = {l \<in> set index. f l = Some j}"
    by (auto simp: groups_def members_map)
  from pq(3) have "i \<noteq> j" unfolding i j by auto
  then show "disjnt p q" unfolding disjnt_def i j by auto
qed

lemma isolated_group:
  assumes c: "find_cliques_contract H cs"
    and j: "last_containing cs l = Some j"
    and iso: "\<forall>m. m \<noteq> l \<longrightarrow> \<not> adj H l m"
    and m: "last_containing cs m = Some j"
  shows "m = l"
proof -
  from last_containing_Some [OF j] have lj: "j < length cs" "l \<in> set (cs ! j)" by auto
  from last_containing_Some [OF m] have mj: "m \<in> set (cs ! j)" by auto
  from lj(1) have "cs ! j \<in> set cs" by simp
  from contract_clique [OF c this] have "is_clique H (set (cs ! j))"
    by (simp add: maximal_clique_def)
  then have "\<forall>u\<in>set (cs ! j). \<forall>v\<in>set (cs ! j). u \<noteq> v \<longrightarrow> adj H u v"
    by (simp add: is_clique_def)
  with lj(2) mj have "m \<noteq> l \<longrightarrow> adj H l m" by auto
  with iso show ?thesis by auto
qed

lemma map_of_labelled: "l \<in> set index \<Longrightarrow> map_of (map (\<lambda>l. (l, f l)) index) l = Some (f l)"
  by (simp add: map_of_map_restrict)

lemma values_labelled:
  "l \<in> set index \<Longrightarrow> {v. (l, v) \<in> set (map (\<lambda>l. (l, f l)) index)} = {f l}"
  by auto

text \<open>
  Claim C1. For every record set and every list of directed match edges between its
  identifiers, and whatever the order in which the library enumerates the maximal cliques,
  \<^verbatim>\<open>cliques\<close> returns a Series over the same index in which every identifier carries exactly
  one group number; the groups are non-empty, pairwise disjoint, and their union is the
  identifier set; a record without a reciprocal edge is a group of its own; and with no
  edges at all the groups are exactly the singletons.
\<close>

theorem cliques_partition:
  assumes c: "find_cliques_contract (reciprocal_graph index ds)
                (fc (reciprocal_graph index ds))"
    and w: "well_formed_edges index ds"
  shows "\<exists>g. cliques fc index ds = Inr g \<and> map fst g = index
           \<and> (\<forall>l\<in>set index. \<exists>i. {v. (l, v) \<in> set g} = {Some i})
           \<and> partition_on (set index) (groups g)
           \<and> (\<forall>l\<in>set index. (\<forall>m. m \<noteq> l \<longrightarrow> \<not> ((l, m) \<in> set ds \<and> (m, l) \<in> set ds))
                  \<longrightarrow> {l} \<in> groups g)
           \<and> (ds = [] \<longrightarrow> groups g = (\<lambda>l. {l}) ` set index)"
proof -
  let ?H = "reciprocal_graph index ds"
  let ?cs = "fc ?H"
  let ?f = "last_containing ?cs"
  let ?g = "map (\<lambda>l. (l, ?f l)) index"
  have run: "cliques fc index ds = Inr ?g" by (rule cliques_closed [where fc = fc, OF c w])
  have idx: "map fst ?g = index" by (simp add: comp_def)
  have some: "\<exists>j. ?f l = Some j" if "l \<in> set index" for l
    using cliques_assigned [OF c that] .
  have one: "\<forall>l\<in>set index. \<exists>i. {v. (l, v) \<in> set ?g} = {Some i}"
  proof
    fix l assume l: "l \<in> set index"
    from some [OF l] obtain j where "?f l = Some j" ..
    with values_labelled [OF l, of ?f] show "\<exists>i. {v. (l, v) \<in> set ?g} = {Some i}" by auto
  qed
  have part: "partition_on (set index) (groups ?g)"
  proof (rule groups_partition)
    show "\<forall>l\<in>set index. ?f l \<noteq> None" using some by fastforce
  qed
  have single: "{l} \<in> groups ?g"
    if l: "l \<in> set index" and iso: "\<forall>m. m \<noteq> l \<longrightarrow> \<not> ((l, m) \<in> set ds \<and> (m, l) \<in> set ds)" for l
  proof -
    from some [OF l] obtain j where j: "?f l = Some j" ..
    from iso have iso': "\<forall>m. m \<noteq> l \<longrightarrow> \<not> adj ?H l m" by (simp add: adj_reciprocal_graph)
    have "members ?g j = {l}"
    proof (intro equalityI subsetI)
      fix m assume "m \<in> members ?g j"
      then have "?f m = Some j" by (simp add: members_map)
      from isolated_group [OF c j iso' this] show "m \<in> {l}" by simp
    next
      fix m assume "m \<in> {l}"
      with l j show "m \<in> members ?g j" by (simp add: members_map)
    qed
    moreover from l j have "j \<in> set (group_numbers ?g)" by (auto simp: group_numbers_map)
    ultimately show ?thesis unfolding groups_def by (metis imageI)
  qed
  have empty: "groups ?g = (\<lambda>l. {l}) ` set index" if e: "ds = []"
  proof (intro equalityI subsetI)
    fix p assume p: "p \<in> groups ?g"
    from partition_onD3 [OF part] p have "p \<noteq> {}" by auto
    then obtain l where lp: "l \<in> p" by auto
    from partition_onD1 [OF part] p lp have l: "l \<in> set index" by auto
    from e have "\<forall>m. m \<noteq> l \<longrightarrow> \<not> ((l, m) \<in> set ds \<and> (m, l) \<in> set ds)" by simp
    from single [OF l this] have s: "{l} \<in> groups ?g" .
    have "p = {l}"
    proof (rule ccontr)
      assume "p \<noteq> {l}"
      with partition_onD2 [OF part] p s have "disjnt p {l}" by (meson pairwiseD)
      with lp show False by (simp add: disjnt_def)
    qed
    with l show "p \<in> (\<lambda>l. {l}) ` set index" by auto
  next
    fix p assume "p \<in> (\<lambda>l. {l}) ` set index"
    then obtain l where l: "l \<in> set index" "p = {l}" by auto
    from e have "\<forall>m. m \<noteq> l \<longrightarrow> \<not> ((l, m) \<in> set ds \<and> (m, l) \<in> set ds)" by simp
    from single [OF l(1) this] l(2) show "p \<in> groups ?g" by simp
  qed
  show ?thesis
  proof (intro exI [of _ ?g] conjI ballI impI)
    show "cliques fc index ds = Inr ?g" by (rule run)
    show "map fst ?g = index" by (rule idx)
    show "\<And>l. l \<in> set index \<Longrightarrow> \<exists>i. {v. (l, v) \<in> set ?g} = {Some i}" using one by simp
    show "partition_on (set index) (groups ?g)" by (rule part)
    show "\<And>l. l \<in> set index \<Longrightarrow>
            \<forall>m. m \<noteq> l \<longrightarrow> \<not> ((l, m) \<in> set ds \<and> (m, l) \<in> set ds) \<Longrightarrow> {l} \<in> groups ?g"
      by (rule single)
    show "ds = [] \<Longrightarrow> groups ?g = (\<lambda>l. {l}) ` set index" by (rule empty)
  qed
qed

text \<open>
  Claim C2, as amended. The loop overwrites: a record that belongs to more than one
  maximal clique ends with the index of the last clique of the enumeration that contains
  it, so its group number \<open>j\<close> is the greatest index of a clique containing it.
\<close>

theorem cliques_last_clique_wins:
  assumes c: "find_cliques_contract (reciprocal_graph index ds)
                (fc (reciprocal_graph index ds))"
    and w: "well_formed_edges index ds"
  shows "\<exists>g. cliques fc index ds = Inr g \<and>
           (\<forall>l\<in>set index. \<exists>j<length (fc (reciprocal_graph index ds)).
                map_of g l = Some (Some j) \<and>
                l \<in> set (fc (reciprocal_graph index ds) ! j) \<and>
                (\<forall>k<length (fc (reciprocal_graph index ds)).
                    l \<in> set (fc (reciprocal_graph index ds) ! k) \<longrightarrow> k \<le> j))"
proof -
  let ?H = "reciprocal_graph index ds"
  let ?cs = "fc ?H"
  let ?f = "last_containing ?cs"
  let ?g = "map (\<lambda>l. (l, ?f l)) index"
  have run: "cliques fc index ds = Inr ?g" by (rule cliques_closed [where fc = fc, OF c w])
  have each: "\<exists>j<length ?cs. map_of ?g l = Some (Some j) \<and> l \<in> set (?cs ! j) \<and>
          (\<forall>k<length ?cs. l \<in> set (?cs ! k) \<longrightarrow> k \<le> j)" if l: "l \<in> set index" for l
  proof -
    from cliques_assigned [OF c l] obtain j where j: "?f l = Some j" ..
    from last_containing_Some [OF j] have
      1: "j < length ?cs" "l \<in> set (?cs ! j)" and 2: "\<forall>k. j < k \<and> k < length ?cs \<longrightarrow> l \<notin> set (?cs ! k)"
      by auto
    from 2 have "\<forall>k<length ?cs. l \<in> set (?cs ! k) \<longrightarrow> k \<le> j" by (meson not_le_imp_less)
    with 1 map_of_labelled [OF l, of ?f] j show ?thesis by auto
  qed
  show ?thesis
  proof (rule exI [of _ ?g], rule conjI)
    show "cliques fc index ds = Inr ?g" by (rule run)
    show "\<forall>l\<in>set index. \<exists>j<length ?cs. map_of ?g l = Some (Some j) \<and> l \<in> set (?cs ! j) \<and>
          (\<forall>k<length ?cs. l \<in> set (?cs ! k) \<longrightarrow> k \<le> j)" using each by (rule ballI)
  qed
qed

text \<open>
  Claim C5. When the matcher asserts the edge from \<open>A\<close> to \<open>B\<close> but not the edge from \<open>B\<close>
  to \<open>A\<close>, then \<^verbatim>\<open>cliques\<close> gives \<open>A\<close> and \<open>B\<close> different group numbers: no group contains
  both.
\<close>

theorem cliques_nonreciprocal_apart:
  assumes c: "find_cliques_contract (reciprocal_graph index ds)
                (fc (reciprocal_graph index ds))"
    and w: "well_formed_edges index ds"
    and ab: "(A, B) \<in> set ds" and ba: "(B, A) \<notin> set ds"
  shows "\<exists>g i j. cliques fc index ds = Inr g \<and>
           map_of g A = Some (Some i) \<and> map_of g B = Some (Some j) \<and> i \<noteq> j \<and>
           \<not> (\<exists>p\<in>groups g. A \<in> p \<and> B \<in> p)"
proof -
  let ?H = "reciprocal_graph index ds"
  let ?cs = "fc ?H"
  let ?f = "last_containing ?cs"
  let ?g = "map (\<lambda>l. (l, ?f l)) index"
  have run: "cliques fc index ds = Inr ?g" by (rule cliques_closed [where fc = fc, OF c w])
  from w ab have A: "A \<in> set index" and B: "B \<in> set index"
    by (auto simp: well_formed_edges_def)
  from ab ba have ne: "A \<noteq> B" by auto
  from cliques_assigned [OF c A] obtain i where i: "?f A = Some i" ..
  from cliques_assigned [OF c B] obtain j where j: "?f B = Some j" ..
  have ij: "i \<noteq> j"
  proof
    assume "i = j"
    with last_containing_Some [OF i] last_containing_Some [OF j]
    have m: "j < length ?cs" "A \<in> set (?cs ! j)" "B \<in> set (?cs ! j)" by auto
    from m(1) have "?cs ! j \<in> set ?cs" by simp
    from contract_clique [OF c this] have "is_clique ?H (set (?cs ! j))"
      by (simp add: maximal_clique_def)
    then have "\<forall>u\<in>set (?cs ! j). \<forall>v\<in>set (?cs ! j). u \<noteq> v \<longrightarrow> adj ?H u v"
      by (simp add: is_clique_def)
    with m(2,3) ne have "adj ?H A B" by auto
    with ba show False by (simp add: adj_reciprocal_graph)
  qed
  have apart: "\<not> (\<exists>p\<in>groups ?g. A \<in> p \<and> B \<in> p)"
  proof
    assume "\<exists>p\<in>groups ?g. A \<in> p \<and> B \<in> p"
    then obtain k where "A \<in> members ?g k" "B \<in> members ?g k" unfolding groups_def by auto
    then have "?f A = Some k" "?f B = Some k" by (simp_all add: members_map)
    with i j \<open>i \<noteq> j\<close> show False by simp
  qed
  show ?thesis
  proof (rule exI [of _ ?g], rule exI [of _ i], rule exI [of _ j], intro conjI)
    show "cliques fc index ds = Inr ?g" by (rule run)
    show "map_of ?g A = Some (Some i)" using map_of_labelled [OF A, of ?f] i by simp
    show "map_of ?g B = Some (Some j)" using map_of_labelled [OF B, of ?f] j by simp
    show "i \<noteq> j" by (rule ij)
    show "\<not> (\<exists>p\<in>groups ?g. A \<in> p \<and> B \<in> p)" by (rule apart)
  qed
qed

theorem cliques_partition_witness:
  "find_cliques_contract (reciprocal_graph [1, 2, 3 :: nat] [(1, 2), (2, 1), (2, 3)])
     (find_cliques_enum (reciprocal_graph [1, 2, 3] [(1, 2), (2, 1), (2, 3)]))
   \<and> well_formed_edges [1, 2, 3 :: nat] [(1, 2), (2, 1), (2, 3)]
   \<and> cliques find_cliques_enum [1, 2, 3 :: nat] [(1, 2), (2, 1), (2, 3)]
       = Inr [(1, Some 0), (2, Some 0), (3, Some 1)]
   \<and> partition_on {1, 2, 3 :: nat} (groups [(1, Some 0), (2, Some 0), (3, Some 1)])
   \<and> {3 :: nat} \<in> groups [(1, Some 0), (2, Some 0), (3, Some 1)]
   \<and> find_cliques_contract (reciprocal_graph [1, 2, 3 :: nat] [])
        (find_cliques_enum (reciprocal_graph [1, 2, 3] []))
   \<and> well_formed_edges [1, 2, 3 :: nat] []
   \<and> cliques find_cliques_enum [1, 2, 3 :: nat] [] = Inr [(1, Some 0), (2, Some 1), (3, Some 2)]
   \<and> groups [(1 :: nat, Some 0), (2, Some 1), (3, Some 2)] = {{1}, {2}, {3}}"
proof -
  let ?ix = "[1, 2, 3 :: nat]"
  let ?ds = "[(1, 2), (2, 1), (2, 3)] :: (nat \<times> nat) list"
  let ?g = "[(1, Some 0), (2, Some 0), (3, Some 1)] :: nat series"
  let ?g' = "[(1, Some 0), (2, Some 1), (3, Some 2)] :: nat series"
  have c: "find_cliques_contract (reciprocal_graph ?ix ?ds) (find_cliques_enum (reciprocal_graph ?ix ?ds))"
    by (rule find_cliques_enum_contract)
  have w: "well_formed_edges ?ix ?ds" by (simp add: well_formed_edges_def)
  have run: "cliques find_cliques_enum ?ix ?ds = Inr ?g" by code_simp
  from cliques_partition [where fc = find_cliques_enum, OF c w] run
  have p: "partition_on (set ?ix) (groups ?g)"
    and s: "\<forall>l\<in>set ?ix. (\<forall>m. m \<noteq> l \<longrightarrow> \<not> ((l, m) \<in> set ?ds \<and> (m, l) \<in> set ?ds)) \<longrightarrow> {l} \<in> groups ?g"
    by auto
  from p have p': "partition_on {1, 2, 3 :: nat} (groups ?g)" by simp
  have "\<forall>m. m \<noteq> (3::nat) \<longrightarrow> \<not> ((3, m) \<in> set ?ds \<and> (m, 3) \<in> set ?ds)" by simp
  with s have s': "{3} \<in> groups ?g" by simp
  have c0: "find_cliques_contract (reciprocal_graph ?ix []) (find_cliques_enum (reciprocal_graph ?ix []))"
    by (rule find_cliques_enum_contract)
  have w0: "well_formed_edges ?ix []" by (simp add: well_formed_edges_def)
  have run0: "cliques find_cliques_enum ?ix [] = Inr ?g'" by code_simp
  from cliques_partition [where fc = find_cliques_enum, OF c0 w0] run0
  have "groups ?g' = (\<lambda>l. {l}) ` set ?ix" by auto
  then have e: "groups ?g' = {{1}, {2}, {3}}" by simp
  from c w run p' s' c0 w0 run0 e show ?thesis by simp
qed

text \<open>
  Claim C2 as stated fails on the path 1 - 2 - 3: record 2 is in both maximal cliques, the
  first clique containing it has index 0, and its group number is 1.
\<close>

theorem cliques_first_clique_counterexample:
  "find_cliques_enum (reciprocal_graph [1, 2, 3 :: nat] [(1, 2), (2, 1), (2, 3), (3, 2)])
     = [[1, 2], [2, 3]]
   \<and> first_containing [[1, 2], [2, 3 :: nat]] 2 = Some 0
   \<and> cliques find_cliques_enum [1, 2, 3 :: nat] [(1, 2), (2, 1), (2, 3), (3, 2)]
       = Inr [(1, Some 0), (2, Some 1), (3, Some 1)]"
  by code_simp

theorem cliques_last_clique_wins_witness:
  "find_cliques_contract (reciprocal_graph [1, 2, 3 :: nat] [(1, 2), (2, 1), (2, 3), (3, 2)])
     (find_cliques_enum (reciprocal_graph [1, 2, 3] [(1, 2), (2, 1), (2, 3), (3, 2)]))
   \<and> well_formed_edges [1, 2, 3 :: nat] [(1, 2), (2, 1), (2, 3), (3, 2)]
   \<and> (\<exists>g. cliques find_cliques_enum [1, 2, 3 :: nat] [(1, 2), (2, 1), (2, 3), (3, 2)] = Inr g
         \<and> map_of g 2 = Some (Some 1))"
proof -
  let ?ix = "[1, 2, 3 :: nat]"
  let ?ds = "[(1, 2), (2, 1), (2, 3), (3, 2)] :: (nat \<times> nat) list"
  let ?cs = "find_cliques_enum (reciprocal_graph ?ix ?ds)"
  have c: "find_cliques_contract (reciprocal_graph ?ix ?ds) ?cs"
    by (rule find_cliques_enum_contract)
  have w: "well_formed_edges ?ix ?ds" by (simp add: well_formed_edges_def)
  have cs: "?cs = [[1, 2], [2, 3]]" by code_simp
  from cliques_last_clique_wins [where fc = find_cliques_enum, OF c w]
  obtain g where g: "cliques find_cliques_enum ?ix ?ds = Inr g"
    and l: "\<forall>l\<in>set ?ix. \<exists>j<length ?cs. map_of g l = Some (Some j) \<and> l \<in> set (?cs ! j) \<and>
               (\<forall>k<length ?cs. l \<in> set (?cs ! k) \<longrightarrow> k \<le> j)"
    by auto
  from l obtain j where j: "j < length ?cs" "map_of g 2 = Some (Some j)"
    "\<forall>k<length ?cs. 2 \<in> set (?cs ! k) \<longrightarrow> k \<le> j"
    by auto
  from j(3) have "1 \<le> j" unfolding cs by auto
  moreover from j(1) have "j < 2" unfolding cs by simp
  ultimately have "j = 1" by simp
  with g j(2) c w show ?thesis by auto
qed

theorem cliques_nonreciprocal_apart_witness:
  "find_cliques_contract (reciprocal_graph [1, 2, 3 :: nat] [(1, 2), (2, 1), (3, 1)])
     (find_cliques_enum (reciprocal_graph [1, 2, 3] [(1, 2), (2, 1), (3, 1)]))
   \<and> well_formed_edges [1, 2, 3 :: nat] [(1, 2), (2, 1), (3, 1)]
   \<and> (3, 1) \<in> set [(1, 2), (2, 1), (3, 1 :: nat)]
   \<and> (1, 3) \<notin> set [(1, 2), (2, 1), (3 :: nat, 1 :: nat)]
   \<and> cliques find_cliques_enum [1, 2, 3 :: nat] [(1, 2), (2, 1), (3, 1)]
        = Inr [(1, Some 0), (2, Some 0), (3, Some 1)]
   \<and> \<not> (\<exists>p\<in>groups [(1 :: nat, Some 0), (2, Some 0), (3, Some 1)]. 3 \<in> p \<and> 1 \<in> p)"
proof -
  let ?ix = "[1, 2, 3 :: nat]"
  let ?ds = "[(1, 2), (2, 1), (3, 1)] :: (nat \<times> nat) list"
  let ?g = "[(1, Some 0), (2, Some 0), (3, Some 1)] :: nat series"
  have c: "find_cliques_contract (reciprocal_graph ?ix ?ds) (find_cliques_enum (reciprocal_graph ?ix ?ds))"
    by (rule find_cliques_enum_contract)
  have w: "well_formed_edges ?ix ?ds" by (simp add: well_formed_edges_def)
  have ab: "(3, 1) \<in> set ?ds" by simp
  have ba: "(1, 3) \<notin> set ?ds" by simp
  have run: "cliques find_cliques_enum ?ix ?ds = Inr ?g" by code_simp
  from cliques_nonreciprocal_apart [where fc = find_cliques_enum, OF c w ab ba] run
  have "\<not> (\<exists>p\<in>groups ?g. 3 \<in> p \<and> 1 \<in> p)" by auto
  with c w ab ba run show ?thesis by simp
qed

section \<open>Properties of \<^verbatim>\<open>value_counts\<close>\<close>

lemma set_first_occurrences: "set (rev (remdups (rev vs))) = set vs"
  by simp

lemma head_sort_key_least:
  assumes "sort_key f ys = p # ps"
  shows "p \<in> set ys \<and> (\<forall>q\<in>set ys. f p \<le> f q)"
proof -
  have s: "sorted (map f (sort_key f ys))" by (rule sorted_sort_key)
  have e: "set (sort_key f ys) = set ys" by simp
  from e assms have 1: "p \<in> set ys" by auto
  have "\<forall>q\<in>set ys. f p \<le> f q"
  proof
    fix q assume "q \<in> set ys"
    with e assms have "q = p \<or> q \<in> set ps" by auto
    with s assms show "f p \<le> f q" by auto
  qed
  with 1 show ?thesis by simp
qed

lemma index0_value_counts_Inr:
  assumes "index0 (value_counts dropna xs) = Inr k"
  shows "most_frequent (counted dropna xs) k"
proof -
  let ?vs = "counted dropna xs"
  let ?ys = "map (\<lambda>k. (k, count_list ?vs k)) (rev (remdups (rev ?vs)))"
  let ?f = "\<lambda>p :: 'a option \<times> nat. - int (snd p)"
  from assms obtain p ps where p: "sort_key ?f ?ys = p # ps" "fst p = k"
    by (auto simp: index0_def value_counts_def count_values_def split: list.splits)
  from head_sort_key_least [OF p(1)] have 1: "p \<in> set ?ys" and 2: "\<forall>q\<in>set ?ys. ?f p \<le> ?f q"
    by auto
  from 1 p(2) have k: "k \<in> set ?vs" "snd p = count_list ?vs k" by auto
  have "count_list ?vs w \<le> count_list ?vs k" for w
  proof (cases "w \<in> set ?vs")
    case True
    then have "(w, count_list ?vs w) \<in> set ?ys" by auto
    with 2 have "?f p \<le> ?f (w, count_list ?vs w)" by blast
    with k(2) show ?thesis by simp
  next
    case False
    then show ?thesis by simp
  qed
  with k(1) show ?thesis by (simp add: most_frequent_def)
qed

lemma index0_value_counts_Inl:
  "index0 (value_counts dropna xs) = Inl e \<Longrightarrow> counted dropna xs = []"
proof -
  assume a: "index0 (value_counts dropna xs) = Inl e"
  let ?vs = "counted dropna xs"
  let ?ys = "map (\<lambda>k. (k, count_list ?vs k)) (rev (remdups (rev ?vs)))"
  from a have "sort_key (\<lambda>p. - int (snd p)) ?ys = []"
    by (auto simp: index0_def value_counts_def count_values_def split: list.splits)
  then have "set (sort_key (\<lambda>p. - int (snd p)) ?ys) = {}" by simp
  then have "set ?ys = {}" by (simp only: set_sort)
  then show "?vs = []" by simp
qed

lemma index0_value_counts_total:
  assumes "counted dropna xs \<noteq> []"
  shows "\<exists>k. index0 (value_counts dropna xs) = Inr k"
proof (cases "index0 (value_counts dropna xs)")
  case (Inl e)
  from index0_value_counts_Inl [OF this] assms show ?thesis by simp
next
  case (Inr k)
  then show ?thesis by simp
qed

lemma count_list_two: "v \<noteq> w \<Longrightarrow> count_list xs v + count_list xs w \<le> length xs"
  by (induction xs) auto

lemma most_frequent_majority_null:
  assumes "most_frequent xs k" "majority_null xs"
  shows "k = None"
proof (rule ccontr)
  assume "k \<noteq> None"
  from count_list_two [OF this, of xs] have "count_list xs k + count_list xs None \<le> length xs" .
  moreover from assms(1) have "count_list xs None \<le> count_list xs k" by (simp add: most_frequent_def)
  ultimately show False using assms(2) by (simp add: majority_null_def)
qed

section \<open>Arithmetic of the numeric columns\<close>

lemma fadd_assoc: "fadd (fadd a b) c = fadd a (fadd b c)"
  by (cases a; cases b; cases c) simp_all

lemma fadd_zero [simp]: "fadd (Fin 0) a = a"
  by (cases a) simp_all

lemma foldl_fadd: "foldl fadd a xs = fadd a (foldl fadd (Fin 0) xs)"
proof (induction xs arbitrary: a)
  case Nil
  show ?case by (cases a) simp_all
next
  case (Cons x xs)
  have "foldl fadd a (x # xs) = foldl fadd (fadd a x) xs" by simp
  also have "\<dots> = fadd (fadd a x) (foldl fadd (Fin 0) xs)" by (rule Cons.IH)
  also have "\<dots> = fadd a (fadd x (foldl fadd (Fin 0) xs))" by (rule fadd_assoc)
  also have "fadd x (foldl fadd (Fin 0) xs) = foldl fadd x xs" by (rule Cons.IH [symmetric])
  finally show ?case by simp
qed

lemma series_sum_fillna: "series_sum (map (fillna (Fin 0) \<circ> f) x) = sum_null_as_zero (map f x)"
proof (induction x)
  case Nil
  show ?case by (simp add: series_sum_def)
next
  case (Cons r x)
  have n: "notna (fillna (Fin 0) (f r))" by (simp add: notna_def fillna_def)
  have "series_sum (map (fillna (Fin 0) \<circ> f) (r # x))
        = foldl fadd (fillna (Fin 0) (f r)) (filter notna (map (fillna (Fin 0) \<circ> f) x))"
    using n by (simp add: series_sum_def)
  also have "\<dots> = fadd (fillna (Fin 0) (f r)) (series_sum (map (fillna (Fin 0) \<circ> f) x))"
    unfolding series_sum_def by (rule foldl_fadd)
  also have "series_sum (map (fillna (Fin 0) \<circ> f) x) = sum_null_as_zero (map f x)"
    by (rule Cons.IH)
  also have "fadd (fillna (Fin 0) (f r)) (sum_null_as_zero (map f x)) = sum_null_as_zero (map f (r # x))"
    by (simp add: fillna_def)
  finally show ?case .
qed

section \<open>Properties of \<^verbatim>\<open>prop_for_groups\<close>\<close>

lemma prop_for_groups_Inr:
  assumes "prop_for_groups target cols key x = Inr res"
  shows "index0 (value_counts True (map Name x)) = Inr (Name res)"
    and "index0 (value_counts False (map Country x)) = Inr (Country res)"
    and "index0 (value_counts False (map Fueltype x)) = Inr (Fueltype res)"
    and "index0 (value_counts False (map Technology x)) = Inr (Technology res)"
    and "index0 (value_counts False (map Set x)) = Inr (Set res)"
    and "index0 (value_counts False (map File x)) = Inr (File res)"
    and "Capacity res = series_sum (map (fillna (Fin 0) \<circ> Capacity) x)"
    and "Duration res = (if ''Duration'' \<in> set target \<and> ''Duration'' \<in> set cols
                         then weighted_Duration x else NaN)"
  using assms unfolding prop_for_groups_def by (auto split: sum.splits)

lemma prop_for_groups_total:
  assumes "\<exists>r\<in>set x. Name r \<noteq> None"
  shows "\<exists>res. prop_for_groups target cols key x = Inr res"
proof -
  from assms have x: "x \<noteq> []" by auto
  from assms have "counted True (map Name x) \<noteq> []" by (auto simp: counted_def filter_empty_conv)
  from index0_value_counts_total [OF this] obtain n where
    n: "index0 (value_counts True (map Name x)) = Inr n" ..
  have "\<exists>k. index0 (value_counts False (map f x)) = Inr k" for f :: "'a row \<Rightarrow> string option"
    by (rule index0_value_counts_total) (use x in \<open>simp add: counted_def\<close>)
  then obtain a b c d e where
    "index0 (value_counts False (map Country x)) = Inr a"
    "index0 (value_counts False (map Fueltype x)) = Inr b"
    "index0 (value_counts False (map Technology x)) = Inr c"
    "index0 (value_counts False (map Set x)) = Inr d"
    "index0 (value_counts False (map File x)) = Inr e"
    by metis
  with n show ?thesis by (simp add: prop_for_groups_def)
qed

lemma mode_with_nulls:
  assumes "index0 (value_counts False xs) = Inr k"
  shows "most_frequent xs k \<and> (majority_null xs \<longrightarrow> k = None)"
proof -
  from index0_value_counts_Inr [OF assms] have "most_frequent xs k" by (simp add: counted_def)
  with most_frequent_majority_null [of xs k] show ?thesis by auto
qed

lemma mode_without_nulls:
  assumes "index0 (value_counts True xs) = Inr k"
  shows "k \<noteq> None \<and> most_frequent (filter (\<lambda>v. v \<noteq> None) xs) k"
proof -
  from index0_value_counts_Inr [OF assms] have m: "most_frequent (filter (\<lambda>v. v \<noteq> None) xs) k"
    by (simp add: counted_def)
  then have "k \<in> set (filter (\<lambda>v. v \<noteq> None) xs)" by (simp add: most_frequent_def)
  with m show ?thesis by simp
qed

text \<open>
  Claim C4, as amended. For every group in which some Name is not null the aggregation
  succeeds, and Country, Fueltype, Technology, Set and File are each a most frequent value
  of the group with null counted like any other value, so that a majority of nulls yields
  null; Name is a most frequent value among the Names that are not null, and is never
  null.
\<close>

theorem prop_for_groups_mode:
  assumes "\<exists>r\<in>set x. Name r \<noteq> None"
  shows "\<exists>res. prop_for_groups target cols key x = Inr res
           \<and> most_frequent (map Country x) (Country res)
           \<and> (majority_null (map Country x) \<longrightarrow> Country res = None)
           \<and> most_frequent (map Fueltype x) (Fueltype res)
           \<and> (majority_null (map Fueltype x) \<longrightarrow> Fueltype res = None)
           \<and> most_frequent (map Technology x) (Technology res)
           \<and> (majority_null (map Technology x) \<longrightarrow> Technology res = None)
           \<and> most_frequent (map Set x) (Set res)
           \<and> (majority_null (map Set x) \<longrightarrow> Set res = None)
           \<and> most_frequent (map File x) (File res)
           \<and> (majority_null (map File x) \<longrightarrow> File res = None)
           \<and> Name res \<noteq> None
           \<and> most_frequent (filter (\<lambda>v. v \<noteq> None) (map Name x)) (Name res)"
proof -
  from prop_for_groups_total [OF assms] obtain res where
    res: "prop_for_groups target cols key x = Inr res" ..
  note r = prop_for_groups_Inr [OF res]
  from mode_with_nulls [OF r(2)] mode_with_nulls [OF r(3)] mode_with_nulls [OF r(4)]
    mode_with_nulls [OF r(5)] mode_with_nulls [OF r(6)] mode_without_nulls [OF r(1)] res
  show ?thesis by simp
qed

lemma sum_null_as_zero_finite:
  assumes "\<forall>a\<in>set xs. a = NaN \<or> (\<exists>c. a = Fin c)"
  shows "sum_null_as_zero xs = Fin (\<Sum>a\<leftarrow>xs. case a of Fin c \<Rightarrow> c | _ \<Rightarrow> 0)"
  using assms by (induction xs) auto

text \<open>
  Claim C6. For every group in which some Name is not null the aggregation succeeds and
  its Capacity is the sum of the members' Capacity values with null counted as 0; when
  the values are finite or null, that is the sum of the real numbers. The members
  100, null, 50 give 150.
\<close>

theorem prop_for_groups_Capacity:
  assumes "\<exists>r\<in>set x. Name r \<noteq> None"
  shows "\<exists>res. prop_for_groups target cols key x = Inr res
           \<and> Capacity res = sum_null_as_zero (map Capacity x)
           \<and> ((\<forall>r\<in>set x. Capacity r = NaN \<or> (\<exists>c. Capacity r = Fin c)) \<longrightarrow>
                Capacity res = Fin (\<Sum>r\<leftarrow>x. case Capacity r of Fin c \<Rightarrow> c | _ \<Rightarrow> 0))"
proof -
  from prop_for_groups_total [OF assms] obtain res where
    res: "prop_for_groups target cols key x = Inr res" ..
  from prop_for_groups_Inr(7) [OF res] have c: "Capacity res = sum_null_as_zero (map Capacity x)"
    by (simp add: series_sum_fillna)
  have "Capacity res = Fin (\<Sum>r\<leftarrow>x. case Capacity r of Fin c \<Rightarrow> c | _ \<Rightarrow> 0)"
    if "\<forall>r\<in>set x. Capacity r = NaN \<or> (\<exists>c. Capacity r = Fin c)"
  proof -
    from that have "\<forall>a\<in>set (map Capacity x). a = NaN \<or> (\<exists>c. a = Fin c)" by simp
    from sum_null_as_zero_finite [OF this] c show ?thesis by (simp add: comp_def)
  qed
  with res c show ?thesis by blast
qed

text \<open>
  Claim C3, as amended. For a group of two members with the Capacity and Duration pairs
  (100, 2) and (300, 6), in a frame and a configuration that have the Duration column,
  the aggregated Duration is the capacity-weighted mean (100 * 2 + 300 * 6) / 400, which
  is 5, and the later replacement of 0 by null leaves it.
\<close>

theorem prop_for_groups_Duration_example:
  assumes "''Duration'' \<in> set target" and "''Duration'' \<in> set cols"
    and "Name r1 \<noteq> None \<or> Name r2 \<noteq> None"
  shows "\<exists>res. prop_for_groups target cols key
                 [r1\<lparr>Capacity := Fin 100, Duration := Fin 2\<rparr>,
                  r2\<lparr>Capacity := Fin 300, Duration := Fin 6\<rparr>] = Inr res
           \<and> Duration res = Fin ((100 * 2 + 300 * 6) / 400)
           \<and> replace_zero (Duration res) = Fin 5"
proof -
  let ?x = "[r1\<lparr>Capacity := Fin 100, Duration := Fin 2\<rparr>, r2\<lparr>Capacity := Fin 300, Duration := Fin 6\<rparr>]"
  from assms(3) have "\<exists>r\<in>set ?x. Name r \<noteq> None" by auto
  from prop_for_groups_total [OF this] obtain res where
    res: "prop_for_groups target cols key ?x = Inr res" ..
  have "weighted_Duration ?x = Fin 5"
    by (simp add: weighted_Duration_def series_sum_def notna_def)
  with prop_for_groups_Inr(8) [OF res] assms(1,2) have "Duration res = Fin 5" by simp
  with res show ?thesis by (simp add: replace_zero_def)
qed

theorem prop_for_groups_mode_witness:
  "(\<exists>r\<in>set [member None (Fin 1) NaN, member (Some ''B'') (Fin 1) NaN, member (Some ''B'') (Fin 1) NaN].
       Name r \<noteq> None)
   \<and> majority_null (map Technology
        [member None (Fin 1) NaN, member (Some ''B'') (Fin 1) NaN, member (Some ''B'') (Fin 1) NaN])
   \<and> map_sum id Technology (prop_for_groups [] [] 0
        [member None (Fin 1) NaN, member (Some ''B'') (Fin 1) NaN, member (Some ''B'') (Fin 1) NaN])
       = Inr None
   \<and> map_sum id Name (prop_for_groups [] [] 0
        [member None (Fin 1) NaN, member (Some ''B'') (Fin 1) NaN, member (Some ''B'') (Fin 1) NaN])
       = Inr (Some ''B'')"
proof -
  let ?x = "[member None (Fin 1) NaN, member (Some ''B'') (Fin 1) NaN, member (Some ''B'') (Fin 1) NaN]"
  have h: "\<exists>r\<in>set ?x. Name r \<noteq> None" by (simp add: member_def)
  have m: "majority_null (map Technology ?x)" by (simp add: majority_null_def member_def)
  from prop_for_groups_mode [OF h, of "[]" "[]" 0] obtain res where
    res: "prop_for_groups [] [] 0 ?x = Inr res"
    and t: "majority_null (map Technology ?x) \<longrightarrow> Technology res = None"
    and n: "most_frequent (filter (\<lambda>v. v \<noteq> None) (map Name ?x)) (Name res)"
    by blast
  from t m have 1: "Technology res = None" by simp
  from n have "Name res \<in> set (filter (\<lambda>v. v \<noteq> None) (map Name ?x))"
    by (simp only: most_frequent_def)
  then have 2: "Name res = Some ''B''" by (simp add: member_def)
  from h m res 1 2 show ?thesis by simp
qed

text \<open>
  Claim C4 as stated fails for Name: in a group with the Names null, null and \<open>A\<close>, null
  has the majority and the aggregated Name is \<open>A\<close>.
\<close>

theorem prop_for_groups_Name_counterexample:
  "majority_null (map Name
      [member None (Fin 1) NaN, member None (Fin 1) NaN, member (Some ''A'') (Fin 1) NaN])
   \<and> map_sum id Name (prop_for_groups [] [] 0
        [member None (Fin 1) NaN, member None (Fin 1) NaN, member (Some ''A'') (Fin 1) NaN])
       = Inr (Some ''A'')"
  by code_simp

theorem prop_for_groups_Capacity_witness:
  "(\<exists>r\<in>set [member (Some ''A'') (Fin 100) NaN, member None NaN NaN, member None (Fin 50) NaN].
       Name r \<noteq> None)
   \<and> map_sum id Capacity (prop_for_groups [] [] 0
        [member (Some ''A'') (Fin 100) NaN, member None NaN NaN, member None (Fin 50) NaN])
       = Inr (Fin 150)"
proof -
  let ?x = "[member (Some ''A'') (Fin 100) NaN, member None NaN NaN, member None (Fin 50) NaN]"
  have h: "\<exists>r\<in>set ?x. Name r \<noteq> None" by (simp add: member_def)
  from prop_for_groups_Capacity [OF h, of "[]" "[]" 0] obtain res where
    res: "prop_for_groups [] [] 0 ?x = Inr res"
    and c: "Capacity res = sum_null_as_zero (map Capacity ?x)"
    by blast
  from c have "Capacity res = Fin 150" by (simp add: member_def)
  with h res show ?thesis by simp
qed

text \<open>
  Claim C3 as stated fails: for the members (100, 2) and (300, 6) the aggregated Duration
  is 5 and not 5.5.
\<close>

theorem prop_for_groups_Duration_counterexample:
  "map_sum id (replace_zero \<circ> Duration)
     (prop_for_groups [''Duration''] [''Duration''] 0
        [member (Some ''A'') (Fin 100) (Fin 2), member (Some ''A'') (Fin 300) (Fin 6)])
     = Inr (Fin 5)
   \<and> Fin 5 \<noteq> Fin (11 / 2)"
  by (simp add: prop_for_groups_def value_counts_def count_values_def counted_def index0_def
      member_def weighted_Duration_def
      series_sum_def series_mean_def series_min_def notna_def replace_zero_def fillna_def)

theorem prop_for_groups_Duration_example_witness:
  "''Duration'' \<in> set [''Name'', ''Duration''] \<and> ''Duration'' \<in> set [''Duration'', ''Capacity'']
   \<and> Name (member (Some ''A'') NaN NaN) \<noteq> None
   \<and> map_sum id Duration
        (prop_for_groups [''Name'', ''Duration''] [''Duration'', ''Capacity''] 7
           [member (Some ''A'') (Fin 100) (Fin 2), member None (Fin 300) (Fin 6)])
       = Inr (Fin 5)"
proof -
  let ?r1 = "member (Some ''A'') NaN NaN" and ?r2 = "member None NaN NaN"
  have 1: "''Duration'' \<in> set [''Name'', ''Duration'']" by simp
  have 2: "''Duration'' \<in> set [''Duration'', ''Capacity'']" by simp
  have 3: "Name ?r1 \<noteq> None \<or> Name ?r2 \<noteq> None" by (simp add: member_def)
  have e1: "?r1\<lparr>Capacity := Fin 100, Duration := Fin 2\<rparr> = member (Some ''A'') (Fin 100) (Fin 2)"
    by (simp add: member_def)
  have e2: "?r2\<lparr>Capacity := Fin 300, Duration := Fin 6\<rparr> = member None (Fin 300) (Fin 6)"
    by (simp add: member_def)
  from prop_for_groups_Duration_example [OF 1 2 3, of 7] obtain res where
    "prop_for_groups [''Name'', ''Duration''] [''Duration'', ''Capacity''] 7
       [?r1\<lparr>Capacity := Fin 100, Duration := Fin 2\<rparr>, ?r2\<lparr>Capacity := Fin 300, Duration := Fin 6\<rparr>] = Inr res"
    and "Duration res = Fin ((100 * 2 + 300 * 6) / 400)"
    by blast
  then have "map_sum id Duration
        (prop_for_groups [''Name'', ''Duration''] [''Duration'', ''Capacity''] 7
           [member (Some ''A'') (Fin 100) (Fin 2), member None (Fin 300) (Fin 6)]) = Inr (Fin 5)"
    unfolding e1 e2 by simp
  moreover have "Name ?r1 \<noteq> None" by (simp add: member_def)
  ultimately show ?thesis using 1 2 by blast
qed

section \<open>Properties of \<^verbatim>\<open>clean_powerplantname\<close>\<close>

lemma sum_lists_None: "None \<in> set xs \<Longrightarrow> sum_lists xs = Inl TypeError"
  by (induction xs rule: sum_lists.induct) auto

text \<open>
  Claim C10. The filter of \<^verbatim>\<open>clean_powerplantname\<close> keeps a row whose Name is null, but the
  function does not get that far: whenever a row of the frame has a null Name, the
  concatenation of the token lists raises TypeError and no frame is returned.
\<close>

theorem clean_powerplantname_null_Name:
  "clean_powerplantname sub (df\<lparr>rows := rs @ r\<lparr>Name := None\<rparr> # rs'\<rparr>) = Inl TypeError"
proof -
  let ?name = "map (map_option noise_to_space \<circ> Name) (rs @ r\<lparr>Name := None\<rparr> # rs')"
  have "None \<in> set (map (map_option str_split) ?name)" by simp
  from sum_lists_None [OF this] show ?thesis by (simp add: clean_powerplantname_def)
qed

section \<open>Properties of the pipeline\<close>

text \<open>
  Claim C7. With the aggregation and the use of the saved groups requested and no
  \<^verbatim>\<open>dataset_name\<close>, \<^verbatim>\<open>clean_single\<close> raises ValueError, for every frame and whatever the
  collaborators would do, and nothing has happened before: no message is logged and the
  file system is as it was.
\<close>

theorem clean_single_configuration_error:
  "clean_single e df None True True detailed_columns return_aggregation_groups w
     = (Inl ValueError, w)"
  by (simp add: clean_single_def)

lemma resolve_groups_write:
  assumes "\<forall>g p f. fst (to_csv e g p f) = Some IndexError"
    and "\<forall>g p f. fst (t g p f) = None"
  shows "fst (resolve_groups e path df w) = fst (resolve_groups (e\<lparr>to_csv := t\<rparr>) path df w)"
proof (cases "''grouped'' \<in> set (columns df)")
  case True
  then show ?thesis by (simp add: resolve_groups_def)
next
  case False
  show ?thesis
  proof (cases "duke e df")
    case (Inl x)
    with False show ?thesis by (simp add: resolve_groups_def)
  next
    case (Inr duplicates)
    show ?thesis
    proof (cases "cliques (find_cliques e) (map label (rows df)) duplicates")
      case (Inl x)
      with False Inr show ?thesis by (simp add: resolve_groups_def)
    next
      case g: (Inr g)
      obtain a f1 where 1: "to_csv e g path (fs w) = (a, f1)" by (cases "to_csv e g path (fs w)")
      obtain b f2 where 2: "t g path (fs w) = (b, f2)" by (cases "t g path (fs w)")
      from assms(1) 1 have a: "a = Some IndexError" by (metis fst_conv)
      from assms(2) 2 have b: "b = None" by (metis fst_conv)
      from False Inr g 1 2 a b show ?thesis by (simp add: resolve_groups_def)
    qed
  qed
qed

lemma aggregate_grouped_to_csv:
  "aggregate_grouped (e\<lparr>to_csv := t\<rparr>) d df = aggregate_grouped e d df"
  by (simp add: aggregate_grouped_def Let_def cong: sum.case_cong)

lemma load_saved_groups_to_csv:
  "load_saved_groups (e\<lparr>to_csv := t\<rparr>) path n u df w = load_saved_groups e path n u df w"
  by (simp add: load_saved_groups_def Let_def cong: sum.case_cong if_cong)

lemma resolve_groups_world:
  "snd (resolve_groups e path df w) = w\<lparr>fs := fs (snd (resolve_groups e path df w))\<rparr>"
  by (auto simp: resolve_groups_def Let_def split: sum.splits prod.splits option.splits)

text \<open>
  Claim C8, as amended. When the write of the new groups raises IndexError,
  \<^verbatim>\<open>aggregate_units\<close> goes on and returns what it returns when the write succeeds: the
  same record set, or the same exception of another stage.
\<close>

theorem aggregate_units_write_IndexError:
  assumes "\<forall>g p f. fst (to_csv e g p f) = Some IndexError"
    and "\<forall>g p f. fst (t g p f) = None"
  shows "fst (aggregate_units e df use_saved_aggregation dataset_name detailed_columns
                return_aggregation_groups w)
         = fst (aggregate_units (e\<lparr>to_csv := t\<rparr>) df use_saved_aggregation dataset_name
                  detailed_columns return_aggregation_groups w)"
proof -
  let ?path = "data_out e (''aggregation_groups_'' @ format_name dataset_name @ ''.csv'')"
  obtain r1 w1 where l: "load_saved_groups e ?path dataset_name use_saved_aggregation df w = (r1, w1)"
    by (cases "load_saved_groups e ?path dataset_name use_saved_aggregation df w")
  show ?thesis
  proof (cases r1)
    case (Inl x)
    with l show ?thesis by (simp add: aggregate_units_def load_saved_groups_to_csv)
  next
    case (Inr df1)
    obtain r2 w2 where a: "resolve_groups e ?path df1 w1 = (r2, w2)"
      by (cases "resolve_groups e ?path df1 w1")
    obtain r3 w3 where b: "resolve_groups (e\<lparr>to_csv := t\<rparr>) ?path df1 w1 = (r3, w3)"
      by (cases "resolve_groups (e\<lparr>to_csv := t\<rparr>) ?path df1 w1")
    from resolve_groups_write [OF assms, of ?path df1 w1] a b have r: "r3 = r2" by simp
    show ?thesis
    proof (cases r2)
      case x: (Inl x)
      with l Inr a b r show ?thesis by (simp add: aggregate_units_def load_saved_groups_to_csv)
    next
      case df2: (Inr df2)
      with l Inr a b r show ?thesis
        by (cases "aggregate_grouped e detailed_columns df2")
          (simp_all add: aggregate_units_def load_saved_groups_to_csv aggregate_grouped_to_csv)
    qed
  qed
qed

text \<open>
  Claim C8 as stated fails: only IndexError is caught. When the write raises IOError,
  \<^verbatim>\<open>aggregate_units\<close> raises IOError, on a frame that is aggregated when the write succeeds.
\<close>

theorem aggregate_units_write_IOError_counterexample:
  "fst (aggregate_units (example_env (Some IOError)) example_frame False (Some ''plants'') False
          False \<lparr>fs = (), log = []\<rparr>) = Inl IOError
   \<and> map_sum id (map Name \<circ> rows \<circ> fst)
        (fst (aggregate_units (example_env None) example_frame False (Some ''plants'') False
                False \<lparr>fs = (), log = []\<rparr>))
       = Inr [Some ''Alpha'', Some ''Beta'']"
  by code_simp

theorem aggregate_units_write_IndexError_witness:
  "(\<forall>g p f. fst (to_csv (example_env (Some IndexError) :: (nat, unit) env) g p f)
       = Some IndexError)
   \<and> (\<forall>g p f. fst (to_csv (example_env None :: (nat, unit) env) g p f) = None)
   \<and> map_sum id (map Name \<circ> rows \<circ> fst)
        (fst (aggregate_units (example_env (Some IndexError)) example_frame False
                (Some ''plants'') False False \<lparr>fs = (), log = []\<rparr>))
       = Inr [Some ''Alpha'', Some ''Beta'']"
proof -
  let ?e = "example_env (Some IndexError) :: (nat, unit) env"
  let ?t = "to_csv (example_env None :: (nat, unit) env)"
  have 1: "\<forall>g p f. fst (to_csv ?e g p f) = Some IndexError" by (simp add: example_env_def)
  have 2: "\<forall>g p f. fst (?t g p f) = None" by (simp add: example_env_def)
  have e: "?e\<lparr>to_csv := ?t\<rparr> = example_env None" by (simp add: example_env_def)
  have "map_sum id (map Name \<circ> rows \<circ> fst)
        (fst (aggregate_units (example_env None) example_frame False (Some ''plants'') False
                False \<lparr>fs = (), log = []\<rparr>))
       = Inr [Some ''Alpha'', Some ''Beta'']"
    by code_simp
  with aggregate_units_write_IndexError [OF 1 2, of example_frame False "Some ''plants''" False
      False "\<lparr>fs = (), log = []\<rparr>"] e
  have "map_sum id (map Name \<circ> rows \<circ> fst)
        (fst (aggregate_units ?e example_frame False (Some ''plants'') False False
                \<lparr>fs = (), log = []\<rparr>))
       = Inr [Some ''Alpha'', Some ''Beta'']"
    by simp
  with 1 2 show ?thesis by blast
qed

section \<open>Which classifier writes into the columns of its argument\<close>

lemma alloc_frame:
  assumes "alloc c s = (a, s')"
  shows "a = fresh s" and "fresh s' = Suc (fresh s)" and "\<And>b. b \<noteq> fresh s \<Longrightarrow> mem s' b = mem s b"
  using assms by (auto simp: alloc_def)

lemma store_write_frame:
  "fresh (store_write a c s) = fresh s" "b \<noteq> a \<Longrightarrow> mem (store_write a c s) b = mem s b"
  by (simp_all add: store_write_def)

lemma copy_columns_frame:
  assumes "copy_columns cs s = (cs', s')"
  shows "fresh s \<le> fresh s' \<and> (\<forall>b<fresh s. mem s' b = mem s b) \<and>
         (\<forall>p\<in>set cs'. fresh s \<le> snd p \<and> snd p < fresh s')"
  using assms
proof (induction cs arbitrary: s cs' s')
  case Nil
  then show ?case by simp
next
  case (Cons p cs)
  obtain c a where p: "p = (c, a)" by (cases p)
  obtain a1 s1 where 1: "alloc (store_read s a) s = (a1, s1)" by (cases "alloc (store_read s a) s")
  obtain cs2 s2 where 2: "copy_columns cs s1 = (cs2, s2)" by (cases "copy_columns cs s1")
  from Cons.prems p 1 2 have r: "cs' = (c, a1) # cs2" "s' = s2" by auto
  note f = alloc_frame [OF 1]
  from Cons.IH [OF 2] have ih: "fresh s1 \<le> fresh s2" "\<forall>b<fresh s1. mem s2 b = mem s1 b"
    "\<forall>p\<in>set cs2. fresh s1 \<le> snd p \<and> snd p < fresh s2" by auto
  have a: "fresh s \<le> fresh s'" using f(2) ih(1) r(2) by simp
  have b: "\<forall>b<fresh s. mem s' b = mem s b"
  proof (intro allI impI)
    fix b assume "b < fresh s"
    then have "b < fresh s1" "b \<noteq> fresh s" using f(2) by auto
    with ih(2) f(3) r(2) show "mem s' b = mem s b" by simp
  qed
  have c: "\<forall>p\<in>set cs'. fresh s \<le> snd p \<and> snd p < fresh s'"
    unfolding r using f(1,2) ih(1,3) by auto
  from a b c show ?case by simp
qed

lemma assign_frame:
  assumes "assign c v df s = (df', s')"
  shows "fresh s \<le> fresh s' \<and> (\<forall>b<fresh s. mem s' b = mem s b) \<and>
         (\<forall>p\<in>set (col_addr df'). fresh s \<le> snd p)"
proof -
  obtain cs s1 where 1: "copy_columns (col_addr df) s = (cs, s1)"
    by (cases "copy_columns (col_addr df) s")
  from copy_columns_frame [OF 1] have f: "fresh s \<le> fresh s1" "\<forall>b<fresh s. mem s1 b = mem s b"
    "\<forall>p\<in>set cs. fresh s \<le> snd p \<and> snd p < fresh s1" by auto
  show ?thesis
  proof (cases "map_of cs c")
    case (Some a)
    with assms 1 have r: "df' = df\<lparr>col_addr := cs\<rparr>" "s' = store_write a v s1"
      by (auto simp: assign_def)
    from Some have "(c, a) \<in> set cs" by (rule map_of_SomeD)
    with f(3) have "fresh s \<le> a" by force
    with f r show ?thesis by (auto simp: store_write_frame)
  next
    case None
    obtain a s2 where 2: "alloc v s1 = (a, s2)" by (cases "alloc v s1")
    with assms 1 None have r: "df' = df\<lparr>col_addr := cs @ [(c, a)]\<rparr>" "s' = s2"
      by (auto simp: assign_def)
    note g = alloc_frame [OF 2]
    have "\<forall>b<fresh s. mem s2 b = mem s b"
    proof (intro allI impI)
      fix b assume "b < fresh s"
      with f(1) have "b \<noteq> fresh s1" by simp
      with g(3) f(2) \<open>b < fresh s\<close> show "mem s2 b = mem s b" by simp
    qed
    with f g r show ?thesis by auto
  qed
qed

lemma scan_columns_frame:
  assumes "scan_columns ws v sc df target s = (r, s')" and "n \<le> target"
  shows "fresh s' = fresh s \<and> (\<forall>b<n. mem s' b = mem s b)"
  using assms
proof (induction sc arbitrary: s)
  case Nil
  then show ?case by simp
next
  case (Cons i sc)
  show ?case
  proof (cases "getitem df i")
    case (Inl e)
    with Cons.prems show ?thesis by simp
  next
    case (Inr a)
    let ?s1 = "store_write target (loc_set (contains_mask ws (store_read s a)) v (store_read s target)) s"
    from Cons.prems(1) Inr have "scan_columns ws v sc df target ?s1 = (r, s')" by simp
    from Cons.IH [OF this Cons.prems(2)] have "fresh s' = fresh ?s1" "\<forall>b<n. mem s' b = mem ?s1 b"
      by auto
    with Cons.prems(2) show ?thesis by (auto simp: store_write_frame)
  qed
qed

theorem gather_set_info_frame:
  "\<forall>b<fresh s. mem (snd (gather_set_info search_col df s)) b = mem s b"
proof (intro allI impI)
  fix b assume b: "b < fresh s"
  let ?c = "case map_of (col_addr df) ''Set'' of
              Some a \<Rightarrow> store_read s a | None \<Rightarrow> replicate (length (row_labels df)) None"
  obtain set' s0 where 0: "alloc ?c s = (set', s0)" by (cases "alloc ?c s")
  then have a0: "(case map_of (col_addr df) ''Set'' of
                    Some a \<Rightarrow> alloc (store_read s a) s
                  | None \<Rightarrow> alloc (replicate (length (row_labels df)) None) s) = (set', s0)"
    by (simp split: option.splits)
  note f0 = alloc_frame [OF 0]
  from f0 b have m0: "mem s0 b = mem s b" by simp
  have t: "fresh s \<le> set'" using f0(1) by simp
  let ?chp = "[''heizkraftwerk'', ''hkw'', ''chp'', ''bhkw'', ''cogeneration'',
               ''power and heat'', ''heat and power'']"
  obtain r1 s1 where 1: "scan_columns ?chp ''CHP'' search_col df set' s0 = (r1, s1)"
    by (cases "scan_columns ?chp ''CHP'' search_col df set' s0")
  from scan_columns_frame [OF 1 t] b have m1: "mem s1 b = mem s0 b" and f1: "fresh s1 = fresh s0"
    by auto
  show "mem (snd (gather_set_info search_col df s)) b = mem s b"
  proof (cases r1)
    case (Some e)
    with a0 1 m0 m1 show ?thesis by (simp add: gather_set_info_def)
  next
    case None
    obtain r2 s2 where 2: "scan_columns [''battery'', ''storage''] ''Store'' search_col df set' s1 = (r2, s2)"
      by (cases "scan_columns [''battery'', ''storage''] ''Store'' search_col df set' s1")
    from scan_columns_frame [OF 2 t] b have m2: "mem s2 b = mem s1 b" and f2: "fresh s2 = fresh s1"
      by auto
    show ?thesis
    proof (cases r2)
      case (Some e)
      with a0 1 None 2 m0 m1 m2 show ?thesis by (simp add: gather_set_info_def)
    next
      case n2: None
      obtain df' s3 where 3: "assign ''Set'' (store_read s2 set') df s2 = (df', s3)"
        by (cases "assign ''Set'' (store_read s2 set') df s2")
      from assign_frame [OF 3] have f3: "\<forall>b<fresh s2. mem s3 b = mem s2 b"
        "\<forall>p\<in>set (col_addr df'). fresh s2 \<le> snd p" by auto
      from b f0(2) f1 f2 have b2: "b < fresh s2" by simp
      with f3(1) have m3: "mem s3 b = mem s2 b" by simp
      show ?thesis
      proof (cases "getitem df' ''Set''")
        case (Inl e)
        with a0 1 None 2 n2 3 m0 m1 m2 m3 show ?thesis by (simp add: gather_set_info_def)
      next
        case (Inr a)
        then have "(''Set'', a) \<in> set (col_addr df')"
          by (auto simp: getitem_def split: option.splits dest: map_of_SomeD)
        with f3(2) have "fresh s2 \<le> a" by force
        with b2 have "b \<noteq> a" by simp
        with a0 1 None 2 n2 3 Inr m0 m1 m2 m3 show ?thesis
          by (simp add: gather_set_info_def store_write_frame)
      qed
    qed
  qed
qed

theorem gather_technology_info_frame:
  "\<forall>b<fresh s. mem (snd (gather_technology_info findall search_col df s)) b = mem s b"
proof (intro allI impI)
  fix b assume b: "b < fresh s"
  let ?t = "case map_of (col_addr df) ''Technology'' of
              Some a \<Rightarrow> store_read s a | None \<Rightarrow> replicate (length (row_labels df)) None"
  show "mem (snd (gather_technology_info findall search_col df s)) b = mem s b"
  proof (cases "scan_technology findall search_col df s ?t")
    case (Inl e)
    then show ?thesis by (simp add: gather_technology_info_def)
  next
    case (Inr t')
    obtain df' s' where 1: "assign ''Technology'' t' df s = (df', s')"
      by (cases "assign ''Technology'' t' df s")
    from assign_frame [OF 1] b have "mem s' b = mem s b" by simp
    with Inr 1 show ?thesis by (simp add: gather_technology_info_def)
  qed
qed

text \<open>
  Claim C9. \<^verbatim>\<open>gather_fueltype_info\<close> does not work on a copy: on the example frame the call
  changes the values of the column \<^verbatim>\<open>Fueltype\<close> of its argument, from \<open>Gas\<close> and \<open>Coal\<close> to
  \<open>Lignite\<close> and \<open>Hard Coal\<close>.
\<close>

theorem gather_fueltype_info_writes_argument:
  "getitem example_dframe ''Fueltype'' = Inr 1
   \<and> store_read example_store 1 = [Some ''Gas'', Some ''Coal'']
   \<and> store_read (snd (gather_fueltype_info [''Name'', ''Technology''] example_dframe
                       example_store)) 1
       = [Some ''Lignite'', Some ''Hard Coal'']"
  by code_simp

end
